(* ===== verification/Prelude.thy ===== *)
theory Prelude
  imports Main "HOL-Library.AList" "HOL-Library.Char_ord"
begin

text \<open>
  Shared vocabulary of the Homebase vault development: the string operations of Rust's
  \<open>str\<close> that \<open>vault.rs\<close> calls (\<open>starts_with\<close>, \<open>trim\<close>, \<open>trim_start_matches\<close>,
  \<open>trim_end_matches\<close>, \<open>trim_matches\<close>), the error values every operation may return,
  and the result type \<open>('s, 'a) res\<close> of a stateful fallible operation: a function from
  the file-system state to a result and the state after the call. The state is returned
  on the error path as well, since an operation of \<open>vault.rs\<close> that fails half-way (a
  directory created, a temporary file written) leaves its effects on disk.
  Strings are \<open>char list\<close>s of bytes; the code's \<open>String\<close>s are UTF-8, and the
  model is exact on ASCII text.
\<close>

named_theorems res_simps "evaluation rules of the error-and-state combinators"

type_synonym path = "string list"

subsection \<open>Rust's \<open>str\<close> operations\<close>

text \<open>\<open>str::starts_with\<close> with a string pattern.\<close>

fun starts_with :: "string \<Rightarrow> string \<Rightarrow> bool" where
  "starts_with s [] = True"
| "starts_with [] (c # cs) = False"
| "starts_with (x # xs) (c # cs) = (x = c \<and> starts_with xs cs)"

text \<open>\<open>str::trim_start_matches\<close> with a string pattern: strips the pattern as often as
  it is a prefix (an empty pattern strips nothing).\<close>

function trim_start_matches :: "string \<Rightarrow> string \<Rightarrow> string" where
  "trim_start_matches s pat =
     (if pat \<noteq> [] \<and> starts_with s pat then trim_start_matches (drop (length pat) s) pat else s)"
  by pat_completeness auto
termination
proof (relation "measure (\<lambda>(s, pat). length s)")
  show "wf (measure (\<lambda>(s, pat). length s))" by simp
next
  fix s pat :: string
  assume a: "pat \<noteq> [] \<and> starts_with s pat"
  have "starts_with s pat \<Longrightarrow> length pat \<le> length s"
    by (induction s pat rule: starts_with.induct) auto
  with a have "0 < length pat" "length pat \<le> length s" by auto
  then have "length s - length pat < length s" by (intro diff_less) auto
  then show "((drop (length pat) s, pat), s, pat) \<in> measure (\<lambda>(s, pat). length s)"
    by simp
qed

text \<open>\<open>str::trim_end_matches\<close> and \<open>str::trim_matches\<close> with a \<open>char\<close> pattern.\<close>

definition trim_end_matches :: "string \<Rightarrow> char \<Rightarrow> string" where
  "trim_end_matches s c = rev (dropWhile (\<lambda>x. x = c) (rev s))"

definition trim_matches :: "string \<Rightarrow> char \<Rightarrow> string" where
  "trim_matches s c = trim_end_matches (dropWhile (\<lambda>x. x = c) s) c"

text \<open>\<open>char::is_whitespace\<close> on ASCII (tab, line feed, vertical tab, form feed, carriage
  return, space) and \<open>str::trim\<close>.\<close>

definition is_whitespace :: "char \<Rightarrow> bool" where
  "is_whitespace c \<longleftrightarrow> c = CHR '' '' \<or> ((9::nat) \<le> of_char c \<and> of_char c \<le> (13::nat))"

definition trim :: "string \<Rightarrow> string" where
  "trim s = rev (dropWhile is_whitespace (rev (dropWhile is_whitespace s)))"

subsection \<open>Errors\<close>

text \<open>
  The code reports every failure as a \<open>String\<close>. The model keeps the message and
  classifies each error site by the kind the spec names (section 7 of the spec); an error
  of the operating system carries the kind of \<open>io::Error\<close> it would have.
\<close>

datatype io_error = ENOENT | EEXIST | ENOTDIR | EISDIR | ENOTEMPTY | EINVAL

datatype vault_error =
    HomeDirUnavailable
  | InvalidPath string
  | OutsideVault
  | InvalidArgument string
  | NotFound string
  | AlreadyExists string
  | NotEmpty
  | IoError string io_error
  | InvalidJson string

subsection \<open>Fallible operations on a state\<close>

type_synonym ('s, 'a) res = "'s \<Rightarrow> (vault_error + 'a) \<times> 's"

definition returnE :: "'a \<Rightarrow> ('s, 'a) res" where
  "returnE a = (\<lambda>s. (Inr a, s))"

definition throwE :: "vault_error \<Rightarrow> ('s, 'a) res" where
  "throwE e = (\<lambda>s. (Inl e, s))"

text \<open>A pure \<open>Result\<close> lifted into the state (Rust's \<open>?\<close> on a value that does no I/O),
  and a query of the state.\<close>

definition liftE :: "vault_error + 'a \<Rightarrow> ('s, 'a) res" where
  "liftE r = (\<lambda>s. (r, s))"

definition getsE :: "('s \<Rightarrow> 'a) \<Rightarrow> ('s, 'a) res" where
  "getsE f = (\<lambda>s. (Inr (f s), s))"

definition bindE :: "('s, 'a) res \<Rightarrow> ('a \<Rightarrow> ('s, 'b) res) \<Rightarrow> ('s, 'b) res" where
  "bindE m f = (\<lambda>s. case m s of (Inl e, s') \<Rightarrow> (Inl e, s') | (Inr a, s') \<Rightarrow> f a s')"

text \<open>An invariant of the state that a computation keeps, on the error path too.\<close>

definition keeps :: "('s \<Rightarrow> bool) \<Rightarrow> ('s, 'a) res \<Rightarrow> bool" where
  "keeps P m \<longleftrightarrow> (\<forall>s. P s \<longrightarrow> P (snd (m s)))"

text \<open>The errors a computation may raise: every error it returns satisfies \<open>P\<close>.\<close>

definition raises :: "(vault_error \<Rightarrow> bool) \<Rightarrow> ('s, 'a) res \<Rightarrow> bool" where
  "raises P m \<longleftrightarrow> (\<forall>s e. fst (m s) = Inl e \<longrightarrow> P e)"

subsection \<open>Lemmas on strings\<close>

lemma starts_with_iff: "starts_with s p \<longleftrightarrow> (\<exists>r. s = p @ r)"
  by (induction s p rule: starts_with.induct) auto

lemma starts_with_append [simp]: "starts_with (p @ r) p"
  by (simp add: starts_with_iff)

lemma starts_with_append_iff: "starts_with (p @ s) (p @ q) \<longleftrightarrow> starts_with s q"
  by (induction p) auto

lemma starts_with_length: "starts_with s p \<Longrightarrow> length p \<le> length s"
  by (auto simp: starts_with_iff)

lemma starts_with_trans: "starts_with s p \<Longrightarrow> starts_with p q \<Longrightarrow> starts_with s q"
  by (auto simp: starts_with_iff)

lemma starts_with_drop: "starts_with s p \<Longrightarrow> p @ drop (length p) s = s"
  by (auto simp: starts_with_iff)

declare trim_start_matches.simps [simp del]

lemma trim_start_matches_no_prefix:
  "\<not> starts_with s pat \<Longrightarrow> trim_start_matches s pat = s"
  by (simp add: trim_start_matches.simps [of s pat])

lemma trim_start_matches_prefix:
  "pat \<noteq> [] \<Longrightarrow> trim_start_matches (pat @ s) pat = trim_start_matches s pat"
  by (simp add: trim_start_matches.simps [of "pat @ s" pat])

lemma length_trim_start_matches: "length (trim_start_matches s pat) \<le> length s"
proof (induction s pat rule: trim_start_matches.induct)
  case (1 s pat)
  show ?case
  proof (cases "pat \<noteq> [] \<and> starts_with s pat")
    case True
    with 1 have "length (trim_start_matches (drop (length pat) s) pat) \<le> length (drop (length pat) s)"
      by blast
    with True show ?thesis by (simp add: trim_start_matches.simps[of s pat])
  next
    case False
    then have "trim_start_matches s pat = s" by (subst trim_start_matches.simps, rule if_not_P)
    then show ?thesis by simp
  qed
qed

lemma trim_end_matches_last:
  "trim_end_matches s c \<noteq> [] \<Longrightarrow> last (trim_end_matches s c) \<noteq> c"
proof -
  have "\<And>xs. dropWhile (\<lambda>x. x = c) xs \<noteq> [] \<Longrightarrow> hd (dropWhile (\<lambda>x. x = c) xs) \<noteq> c"
    by (metis (mono_tags, lifting) hd_dropWhile)
  then show "trim_end_matches s c \<noteq> [] \<Longrightarrow> last (trim_end_matches s c) \<noteq> c"
    by (simp add: trim_end_matches_def last_rev)
qed

lemma set_trim_end_matches: "set (trim_end_matches s c) \<subseteq> set s"
  by (auto simp: trim_end_matches_def dest: set_dropWhileD)

lemma set_trim_matches: "set (trim_matches s c) \<subseteq> set s"
  using set_trim_end_matches by (fastforce simp: trim_matches_def dest: set_dropWhileD)

subsection \<open>Lemmas on the combinators\<close>

lemma returnE_apply [res_simps]: "returnE a s = (Inr a, s)"
  by (simp add: returnE_def)

lemma throwE_apply [res_simps]: "throwE e s = (Inl e, s)"
  by (simp add: throwE_def)

lemma liftE_apply [res_simps]: "liftE r s = (r, s)"
  by (simp add: liftE_def)

lemma getsE_apply [res_simps]: "getsE f s = (Inr (f s), s)"
  by (simp add: getsE_def)

lemma bindE_apply [res_simps]:
  "bindE m f s = (case m s of (Inl e, s') \<Rightarrow> (Inl e, s') | (Inr a, s') \<Rightarrow> f a s')"
  by (simp add: bindE_def)

lemma bindE_returnE [simp]: "bindE (returnE a) f = f a"
  by (simp add: bindE_def returnE_def)

lemma bindE_throwE [simp]: "bindE (throwE e) f = throwE e"
  by (simp add: bindE_def throwE_def)

lemma bindE_liftE_Inl [simp]: "bindE (liftE (Inl e)) f = throwE e"
  by (simp add: bindE_def liftE_def throwE_def)

lemma bindE_liftE_Inr [simp]: "bindE (liftE (Inr a)) f = f a"
  by (simp add: bindE_def liftE_def)

lemma bindE_assoc: "bindE (bindE m f) g = bindE m (\<lambda>a. bindE (f a) g)"
  by (rule ext) (simp add: bindE_def split: prod.splits sum.splits)

lemma keeps_returnE [intro, simp]: "keeps P (returnE a)"
  by (simp add: keeps_def returnE_def)

lemma keeps_throwE [intro, simp]: "keeps P (throwE e)"
  by (simp add: keeps_def throwE_def)

lemma keeps_liftE [intro, simp]: "keeps P (liftE r)"
  by (simp add: keeps_def liftE_def)

lemma keeps_getsE [intro, simp]: "keeps P (getsE f)"
  by (simp add: keeps_def getsE_def)

lemma keeps_bindE [intro]:
  "keeps P m \<Longrightarrow> (\<And>a. keeps P (f a)) \<Longrightarrow> keeps P (bindE m f)"
  by (auto simp: keeps_def bindE_def split: prod.splits sum.splits)

lemma keeps_if [intro]: "keeps P m1 \<Longrightarrow> keeps P m2 \<Longrightarrow> keeps P (if b then m1 else m2)"
  by simp

lemma keepsD: "keeps P m \<Longrightarrow> P s \<Longrightarrow> m s = (r, s') \<Longrightarrow> P s'"
  by (metis keeps_def snd_conv)

lemma raises_returnE [intro, simp]: "raises P (returnE a)"
  by (simp add: raises_def returnE_def)

lemma raises_throwE [intro]: "P e \<Longrightarrow> raises P (throwE e)"
  by (simp add: raises_def throwE_def)

lemma raises_liftE [intro]: "(\<And>e. r = Inl e \<Longrightarrow> P e) \<Longrightarrow> raises P (liftE r)"
  by (simp add: raises_def liftE_def)

lemma raises_getsE [intro, simp]: "raises P (getsE f)"
  by (simp add: raises_def getsE_def)

lemma raises_bindE [intro]:
  assumes m: "raises P m" and f: "\<And>a. raises P (f a)"
  shows "raises P (bindE m f)"
  unfolding raises_def
proof (intro allI impI)
  fix s e
  assume e: "fst (bindE m f s) = Inl e"
  obtain r s' where ms: "m s = (r, s')" by fastforce
  show "P e"
  proof (cases r)
    case (Inl e')
    with e ms have "fst (m s) = Inl e" by (simp add: bindE_def)
    with m show ?thesis by (simp add: raises_def)
  next
    case (Inr a)
    with e ms have "fst (f a s') = Inl e" by (simp add: bindE_def)
    with f show ?thesis by (simp add: raises_def)
  qed
qed

lemma raises_if [intro]: "raises P m1 \<Longrightarrow> raises P m2 \<Longrightarrow> raises P (if b then m1 else m2)"
  by simp

lemma raisesD: "raises P m \<Longrightarrow> fst (m s) = Inl e \<Longrightarrow> P e"
  by (simp add: raises_def)

end
