(* ===== verification/Fs.thy ===== *)
theory Fs
  imports Prelude "HOL-Library.Sublist"
begin

text \<open>
  The file system that \<open>vault.rs\<close> works on, and the operations of \<open>std::fs\<close> and
  \<open>walkdir\<close> it calls, with their POSIX behaviour. A path is the list of its components
  from the file-system root \<open>/\<close> (the empty list); a state is an association list from
  paths to nodes, a node being a plain file (its contents and its modification time in
  milliseconds) or a directory. The order of the list is the order in which the
  operating system enumerates entries (\<open>read_dir\<close>, \<open>WalkDir\<close>), which the code does not
  control. Symbolic links, permissions and hard links are not modelled, so the only
  errors of the operating system are those the tree structure causes.
\<close>

datatype node = File string nat | Dir

type_synonym fs = "(path \<times> node) list"

text \<open>What a call may observe of its environment: \<open>dirs::home_dir()\<close>, the UTC and
  local clocks the code formats, and the time a write stamps on a file.\<close>

record sysenv =
  home_dir :: "path option"
  utc_now :: string
  local_date :: string
  clock_ms :: nat

text \<open>The environment the examples run in: the home directory \<open>/home/u\<close>.\<close>

abbreviation demo_env :: sysenv where
  "demo_env \<equiv> \<lparr>home_dir = Some [''home'', ''u''], utc_now = ''2025-01-01T00:00:00+00:00'',
     local_date = ''2025-01-01'', clock_ms = 1000\<rparr>"

subsection \<open>Queries\<close>

definition fs_exists :: "fs \<Rightarrow> path \<Rightarrow> bool" where
  "fs_exists fs p \<longleftrightarrow> p = [] \<or> map_of fs p \<noteq> None"

definition is_dir :: "fs \<Rightarrow> path \<Rightarrow> bool" where
  "is_dir fs p \<longleftrightarrow> p = [] \<or> map_of fs p = Some Dir"

definition is_file :: "fs \<Rightarrow> path \<Rightarrow> bool" where
  "is_file fs p \<longleftrightarrow> (case map_of fs p of Some (File c t) \<Rightarrow> True | _ \<Rightarrow> False)"

definition has_children :: "fs \<Rightarrow> path \<Rightarrow> bool" where
  "has_children fs p \<longleftrightarrow> list_ex (\<lambda>(q, n). strict_prefix p q) fs"

text \<open>Every entry below a path, in enumeration order (\<open>WalkDir\<close> with \<open>min_depth(1)\<close>).\<close>

definition descendants :: "fs \<Rightarrow> path \<Rightarrow> (path \<times> node) list" where
  "descendants fs p = filter (\<lambda>(q, n). strict_prefix p q) fs"

text \<open>\<open>WalkDir::new(p).min_depth(1).into_iter().next().is_some()\<close>: the walk reports an
  error item first when \<open>p\<close> does not exist, and nothing for a file or an empty
  directory.\<close>

definition walk_next_is_some :: "fs \<Rightarrow> path \<Rightarrow> bool" where
  "walk_next_is_some fs p \<longleftrightarrow> \<not> fs_exists fs p \<or> has_children fs p"

text \<open>The immediate entries of a directory (\<open>fs::read_dir\<close>).\<close>

definition read_dir :: "fs \<Rightarrow> path \<Rightarrow> io_error + (path \<times> node) list" where
  "read_dir fs p =
     (if is_dir fs p then Inr (filter (\<lambda>(q, n). q \<noteq> [] \<and> butlast q = p) fs)
      else if fs_exists fs p then Inl ENOTDIR else Inl ENOENT)"

definition read_to_string :: "fs \<Rightarrow> path \<Rightarrow> io_error + string" where
  "read_to_string fs p =
     (case map_of fs p of
        Some (File c t) \<Rightarrow> Inr c
      | Some Dir \<Rightarrow> Inl EISDIR
      | None \<Rightarrow> if p = [] then Inl EISDIR else Inl ENOENT)"

subsection \<open>Updates\<close>

text \<open>\<open>fs::create_dir_all\<close>: creates each missing component from the top; a plain file
  in the way fails with \<open>ENOTDIR\<close>, or with \<open>EEXIST\<close> when it is the last component.\<close>

fun mkdirs :: "fs \<Rightarrow> path \<Rightarrow> string list \<Rightarrow> io_error + fs" where
  "mkdirs fs base [] = Inr fs"
| "mkdirs fs base (c # cs) =
     (let q = base @ [c] in
      if is_dir fs q then mkdirs fs q cs
      else if fs_exists fs q then Inl (if cs = [] then EEXIST else ENOTDIR)
      else mkdirs (AList.update q Dir fs) q cs)"

definition create_dir_all :: "fs \<Rightarrow> path \<Rightarrow> io_error + fs" where
  "create_dir_all fs p = mkdirs fs [] p"

text \<open>\<open>fs::write\<close>: creates or truncates a plain file; its directory must exist.\<close>

definition write_file :: "fs \<Rightarrow> path \<Rightarrow> string \<Rightarrow> nat \<Rightarrow> io_error + fs" where
  "write_file fs p c t =
     (if p = [] then Inl EISDIR
      else if \<not> is_dir fs (butlast p) then Inl (if fs_exists fs (butlast p) then ENOTDIR else ENOENT)
      else if map_of fs p = Some Dir then Inl EISDIR
      else Inr (AList.update p (File c t) fs))"

text \<open>\<open>fs::remove_file\<close> (\<open>unlink\<close>) and \<open>fs::remove_dir\<close> (\<open>rmdir\<close>).\<close>

definition remove_file :: "fs \<Rightarrow> path \<Rightarrow> io_error + fs" where
  "remove_file fs p =
     (if is_dir fs p then Inl EISDIR
      else if map_of fs p = None then Inl ENOENT
      else Inr (AList.delete p fs))"

definition remove_dir :: "fs \<Rightarrow> path \<Rightarrow> io_error + fs" where
  "remove_dir fs p =
     (if p = [] then Inl EINVAL
      else case map_of fs p of
        None \<Rightarrow> Inl ENOENT
      | Some (File c t) \<Rightarrow> Inl ENOTDIR
      | Some Dir \<Rightarrow> if has_children fs p then Inl ENOTEMPTY else Inr (AList.delete p fs))"

text \<open>\<open>fs::rename\<close> (\<open>rename(2)\<close>): a plain file replaces a plain file at the target; a
  directory replaces an absent target or an empty directory and takes its whole subtree
  with it; it cannot move into itself.\<close>

definition move_key :: "path \<Rightarrow> path \<Rightarrow> path \<Rightarrow> path" where
  "move_key src dst q = (if prefix src q then dst @ drop (length src) q else q)"

definition rename :: "fs \<Rightarrow> path \<Rightarrow> path \<Rightarrow> io_error + fs" where
  "rename fs src dst =
     (if src = [] \<or> dst = [] then Inl EINVAL
      else case map_of fs src of
        None \<Rightarrow> Inl ENOENT
      | Some n \<Rightarrow>
          if \<not> is_dir fs (butlast dst)
          then Inl (if fs_exists fs (butlast dst) then ENOTDIR else ENOENT)
          else if src = dst then Inr fs
          else case n of
            File c t \<Rightarrow>
              (if map_of fs dst = Some Dir then Inl EISDIR
               else Inr (AList.update dst (File c t) (AList.delete src fs)))
          | Dir \<Rightarrow>
              (if strict_prefix src dst then Inl EINVAL
               else case map_of fs dst of
                 Some (File c t) \<Rightarrow> Inl ENOTDIR
               | Some Dir \<Rightarrow>
                   if has_children fs dst then Inl ENOTEMPTY
                   else Inr (map (\<lambda>(q, m). (move_key src dst q, m)) (AList.delete dst fs))
               | None \<Rightarrow> Inr (map (\<lambda>(q, m). (move_key src dst q, m)) fs)))"

text \<open>The abstract effect of moving a directory: the subtree at \<open>src\<close> appears at
  \<open>dst\<close>, and nothing is left at \<open>src\<close>.\<close>

definition moved :: "(path \<rightharpoonup> node) \<Rightarrow> path \<Rightarrow> path \<Rightarrow> (path \<rightharpoonup> node)" where
  "moved m src dst q =
     (if prefix dst q then m (src @ drop (length dst) q) else if prefix src q then None else m q)"

text \<open>A call of \<open>std::fs\<close> whose error the code maps to a message
  (\<open>.map_err(|e| format!("<msg> ...: {}", e))?\<close>).\<close>

definition io :: "string \<Rightarrow> (fs \<Rightarrow> io_error + fs) \<Rightarrow> (fs, unit) res" where
  "io msg f = (\<lambda>fs. case f fs of Inl e \<Rightarrow> (Inl (IoError msg e), fs) | Inr fs' \<Rightarrow> (Inr (), fs'))"

subsection \<open>Well-formed states\<close>

text \<open>A state is a tree: no path twice, and the directory of every entry is a directory
  of the state.\<close>

definition wf_fs :: "fs \<Rightarrow> bool" where
  "wf_fs fs \<longleftrightarrow> distinct (map fst fs) \<and> (\<forall>(p, n) \<in> set fs. p \<noteq> [] \<and> is_dir fs (butlast p))"

subsection \<open>Lemmas on the tree invariant\<close>

text \<open>The invariant is stated on \<open>map_of\<close>: the theorems below speak of the state as the
  map it denotes, so the rewriting of \<open>map_of\<close> into list membership is switched off.\<close>

declare map_of_eq_Some_iff [simp del] Some_eq_map_of_iff [simp del]

lemma wf_fs_Nil: "wf_fs []"
  by (simp add: wf_fs_def)

lemma ball_set_map_of:
  assumes "distinct (map fst fs)"
  shows "(\<forall>(p, n) \<in> set fs. Q p) \<longleftrightarrow> (\<forall>p n. map_of fs p = Some n \<longrightarrow> Q p)"
  by (fastforce dest: map_of_SomeD map_of_is_SomeI[OF assms])

lemma wf_fs_map_of:
  "wf_fs fs \<longleftrightarrow> distinct (map fst fs) \<and> (\<forall>p n. map_of fs p = Some n \<longrightarrow> p \<noteq> [] \<and> is_dir fs (butlast p))"
  unfolding wf_fs_def by (simp add: ball_set_map_of cong: conj_cong)

lemma wf_fs_parent: "wf_fs fs \<Longrightarrow> map_of fs p = Some n \<Longrightarrow> p \<noteq> [] \<and> is_dir fs (butlast p)"
  unfolding wf_fs_map_of by blast

lemma strict_prefix_snoc_iff: "strict_prefix q (xs @ [x]) \<longleftrightarrow> prefix q xs"
  by (auto simp: strict_prefix_def prefix_snoc)

lemma wf_fs_ancestor:
  assumes "wf_fs fs" shows "map_of fs p = Some n \<Longrightarrow> strict_prefix q p \<Longrightarrow> is_dir fs q"
proof (induction p arbitrary: n rule: rev_induct)
  case Nil
  then show ?case by simp
next
  case (snoc x xs)
  from assms snoc.prems(1) have d: "is_dir fs xs" using wf_fs_parent by fastforce
  from snoc.prems(2) have "prefix q xs" by (simp add: strict_prefix_snoc_iff)
  then consider "q = xs" | "strict_prefix q xs" by (auto simp: strict_prefix_def)
  then show ?case
  proof cases
    case 1 with d show ?thesis by simp
  next
    case 2
    then have "xs \<noteq> []" by auto
    with d have "map_of fs xs = Some Dir" by (simp add: is_dir_def)
    from this 2 show ?thesis by (rule snoc.IH)
  qed
qed

lemma has_children_iff: "has_children fs p \<longleftrightarrow> (\<exists>q. strict_prefix p q \<and> map_of fs q \<noteq> None)"
  by (force simp: has_children_def list_ex_iff map_of_eq_None_iff)

lemma wf_fs_children_dir:
  assumes wf: "wf_fs fs" and c: "has_children fs p" shows "is_dir fs p"
proof -
  from c obtain q n where "strict_prefix p q" "map_of fs q = Some n"
    by (auto simp: has_children_iff)
  then show ?thesis by (intro wf_fs_ancestor [OF wf])
qed

text \<open>The map-level effect of each update.\<close>

lemma map_of_write_file:
  "write_file fs p c t = Inr fs' \<Longrightarrow> map_of fs' = (map_of fs)(p \<mapsto> File c t)"
  by (auto simp: write_file_def update_conv' split: if_splits)

lemma map_of_remove_file:
  "remove_file fs p = Inr fs' \<Longrightarrow> map_of fs' = (map_of fs)(p := None)"
  by (auto simp: remove_file_def delete_conv' split: if_splits)

lemma map_of_remove_dir:
  "remove_dir fs p = Inr fs' \<Longrightarrow> map_of fs' = (map_of fs)(p := None)"
  by (auto simp: remove_dir_def delete_conv' split: if_splits option.splits node.splits)

lemma wf_fsI:
  "distinct (map fst fs) \<Longrightarrow> (\<And>p n. map_of fs p = Some n \<Longrightarrow> p \<noteq> [] \<and> is_dir fs (butlast p))
   \<Longrightarrow> wf_fs fs"
  by (simp add: wf_fs_map_of)

lemma butlast_neq_self: "p \<noteq> [] \<Longrightarrow> butlast p \<noteq> p"
  by (induction p) auto

lemma wf_write_file:
  assumes wf: "wf_fs fs" and w: "write_file fs p c t = Inr fs'"
  shows "wf_fs fs'"
proof (rule wf_fsI)
  from w have g: "p \<noteq> []" "is_dir fs (butlast p)" "map_of fs p \<noteq> Some Dir"
    and eq: "fs' = AList.update p (File c t) fs"
    by (auto simp: write_file_def split: if_splits)
  from wf eq show "distinct (map fst fs')" by (simp add: wf_fs_def distinct_update)
  have m: "map_of fs' = (map_of fs)(p \<mapsto> File c t)" by (simp add: eq update_conv')
  fix q n assume q: "map_of fs' q = Some n"
  show "q \<noteq> [] \<and> is_dir fs' (butlast q)"
  proof (cases "q = p")
    case True
    with g(1) have "butlast q \<noteq> p" by (simp add: butlast_neq_self)
    with True g(1,2) show ?thesis by (simp add: m is_dir_def)
  next
    case False
    with q m have "map_of fs q = Some n" by simp
    with wf have h: "q \<noteq> [] \<and> is_dir fs (butlast q)" by (rule wf_fs_parent)
    have "butlast q \<noteq> p"
    proof
      assume "butlast q = p"
      with h g(1) have "map_of fs p = Some Dir" by (simp add: is_dir_def)
      with g(3) show False by simp
    qed
    with h show ?thesis by (simp add: m is_dir_def)
  qed
qed

lemma wf_fs_delete_leaf:
  assumes wf: "wf_fs fs" and p: "\<not> has_children fs p"
  shows "wf_fs (AList.delete p fs)"
proof (rule wf_fsI)
  from wf show "distinct (map fst (AList.delete p fs))" by (simp add: wf_fs_def distinct_delete)
  fix q n assume q: "map_of (AList.delete p fs) q = Some n"
  then have qp: "q \<noteq> p" and "map_of fs q = Some n" by (auto simp: delete_conv' split: if_splits)
  with wf have "q \<noteq> [] \<and> is_dir fs (butlast q)" by (blast dest: wf_fs_parent)
  moreover have "butlast q \<noteq> p"
  proof
    assume "butlast q = p"
    moreover have "strict_prefix (butlast q) q"
      using \<open>q \<noteq> [] \<and> _\<close> by (simp add: strict_prefix_def prefixeq_butlast butlast_neq_self)
    ultimately have "has_children fs p"
      using \<open>map_of fs q = Some n\<close> by (auto simp: has_children_iff)
    with p show False by simp
  qed
  ultimately show "q \<noteq> [] \<and> is_dir (AList.delete p fs) (butlast q)"
    by (simp add: is_dir_def delete_conv')
qed


lemma remove_file_no_children:
  "wf_fs fs \<Longrightarrow> remove_file fs p = Inr fs' \<Longrightarrow> \<not> has_children fs p"
  using wf_fs_children_dir by (fastforce simp: remove_file_def split: if_splits)

lemma wf_remove_file: "wf_fs fs \<Longrightarrow> remove_file fs p = Inr fs' \<Longrightarrow> wf_fs fs'"
  using remove_file_no_children wf_fs_delete_leaf
  by (fastforce simp: remove_file_def split: if_splits)

lemma wf_remove_dir: "wf_fs fs \<Longrightarrow> remove_dir fs p = Inr fs' \<Longrightarrow> wf_fs fs'"
  using wf_fs_delete_leaf
  by (fastforce simp: remove_dir_def split: if_splits option.splits node.splits)


lemma is_dir_same_map: "map_of fs' p = map_of fs p \<Longrightarrow> is_dir fs' p \<longleftrightarrow> is_dir fs p"
  by (simp add: is_dir_def)

lemma strict_prefix_butlast: "q \<noteq> [] \<Longrightarrow> strict_prefix (butlast q) q"
  by (simp add: strict_prefix_def prefixeq_butlast butlast_neq_self)

lemma wf_update:
  assumes wf: "wf_fs fs" and q: "q \<noteq> []" "is_dir fs (butlast q)"
    and n: "n = Dir \<or> \<not> has_children fs q"
  shows "wf_fs (AList.update q n fs)"
proof (rule wf_fsI)
  from wf show "distinct (map fst (AList.update q n fs))" by (simp add: wf_fs_def distinct_update)
  have m: "map_of (AList.update q n fs) = (map_of fs)(q \<mapsto> n)" by (simp add: update_conv')
  fix k v assume k: "map_of (AList.update q n fs) k = Some v"
  show "k \<noteq> [] \<and> is_dir (AList.update q n fs) (butlast k)"
  proof (cases "k = q")
    case True
    with q have "butlast k \<noteq> q" by (simp add: butlast_neq_self)
    with True q show ?thesis by (simp add: m is_dir_def)
  next
    case False
    with k m have kv: "map_of fs k = Some v" by simp
    with wf have h: "k \<noteq> [] \<and> is_dir fs (butlast k)" by (rule wf_fs_parent)
    show ?thesis
    proof (cases "butlast k = q")
      case True
      with h kv have "has_children fs q"
        by (auto simp: has_children_iff intro!: exI[of _ k] strict_prefix_butlast)
      with n True h show ?thesis by (simp add: update_conv' is_dir_def)
    next
      case False
      with h show ?thesis by (simp add: m is_dir_def)
    qed
  qed
qed

lemma mkdirs_wf:
  "wf_fs fs \<Longrightarrow> is_dir fs base \<Longrightarrow> mkdirs fs base cs = Inr fs' \<Longrightarrow> wf_fs fs' \<and> is_dir fs' (base @ cs)"
proof (induction cs arbitrary: fs base)
  case Nil
  then show ?case by simp
next
  case (Cons c cs)
  let ?q = "base @ [c]"
  show ?case
  proof (cases "is_dir fs ?q")
    case True
    with Cons.prems Cons.IH[of fs ?q] show ?thesis by simp
  next
    case False
    with Cons.prems(3) have ne: "\<not> fs_exists fs ?q"
      and rec: "mkdirs (AList.update ?q Dir fs) ?q cs = Inr fs'"
      by (auto simp: Let_def split: if_splits)
    have "wf_fs (AList.update ?q Dir fs)"
      using Cons.prems(1,2) by (intro wf_update) simp_all
    moreover have "is_dir (AList.update ?q Dir fs) ?q" by (simp add: is_dir_def update_conv')
    ultimately have "wf_fs fs' \<and> is_dir fs' (?q @ cs)" by (rule Cons.IH[OF _ _ rec])
    then show ?thesis by simp
  qed
qed

lemma mkdirs_map_of:
  "mkdirs fs base cs = Inr fs' \<Longrightarrow>
   map_of fs' q = map_of fs q \<or>
   (map_of fs q = None \<and> map_of fs' q = Some Dir \<and> strict_prefix base q \<and> prefix q (base @ cs))"
proof (induction cs arbitrary: fs base)
  case Nil
  then show ?case by simp
next
  case (Cons c cs)
  let ?q = "base @ [c]"
  have sp: "strict_prefix base ?q" by (simp add: strict_prefix_def)
  show ?case
  proof (cases "is_dir fs ?q")
    case True
    with Cons.prems have "mkdirs fs ?q cs = Inr fs'" by simp
    from Cons.IH[OF this] sp show ?thesis
      by (auto intro: prefix_order.less_trans)
  next
    case False
    with Cons.prems have ne: "\<not> fs_exists fs ?q"
      and rec: "mkdirs (AList.update ?q Dir fs) ?q cs = Inr fs'"
      by (auto simp: Let_def split: if_splits)
    from Cons.IH[OF rec] ne sp show ?thesis
      by (auto simp: update_conv' fs_exists_def split: if_splits
          intro: prefix_order.less_trans)
  qed
qed

lemma wf_create_dir_all:
  "wf_fs fs \<Longrightarrow> create_dir_all fs p = Inr fs' \<Longrightarrow> wf_fs fs' \<and> is_dir fs' p"
  using mkdirs_wf[of fs "[]" p fs'] by (simp add: create_dir_all_def is_dir_def)

lemma create_dir_all_map_of:
  "create_dir_all fs p = Inr fs' \<Longrightarrow>
   map_of fs' q = map_of fs q \<or> (map_of fs q = None \<and> map_of fs' q = Some Dir \<and> q \<noteq> [] \<and> prefix q p)"
  using mkdirs_map_of[of fs "[]" p fs' q] by (auto simp: create_dir_all_def)


lemma map_of_rekey_in:
  "inj_on f (fst ` set L) \<Longrightarrow> k \<in> fst ` set L \<Longrightarrow>
   map_of (map (\<lambda>(q, m). (f q, m)) L) (f k) = map_of L k"
proof (induction L)
  case Nil
  then show ?case by simp
next
  case (Cons a L)
  obtain q m where a: "a = (q, m)" by (cases a)
  show ?case
  proof (cases "k = q")
    case True
    with a show ?thesis by simp
  next
    case False
    with Cons.prems a have k: "k \<in> fst ` set L" by auto
    from Cons.prems(1) a k False have "f k \<noteq> f q" by (auto simp: inj_on_def)
    moreover from Cons.prems(1) have "inj_on f (fst ` set L)" by (auto simp: inj_on_def)
    ultimately show ?thesis using Cons.IH k a False by simp
  qed
qed

lemma map_of_rekey_out:
  "x \<notin> f ` fst ` set L \<Longrightarrow> map_of (map (\<lambda>(q, m). (f q, m)) L) x = None"
  by (induction L) auto

lemma distinct_rekey:
  "distinct (map fst L) \<Longrightarrow> inj_on f (fst ` set L) \<Longrightarrow> distinct (map fst (map (\<lambda>(q, m). (f q, m)) L))"
proof -
  assume d: "distinct (map fst L)" and i: "inj_on f (fst ` set L)"
  have eq: "map fst (map (\<lambda>(q, m). (f q, m)) L) = map f (map fst L)" by (induction L) auto
  have "distinct (map f (map fst L))" using d i by (simp only: distinct_map set_map)
  then show ?thesis by (simp only: eq)
qed

lemma move_key_under: "move_key src dst (src @ r) = dst @ r"
  by (simp add: move_key_def)

lemma rename_dir_map_of:
  assumes wf: "wf_fs L" and nd: "\<not> prefix dst src" "\<not> prefix src dst"
    and empty: "\<forall>q. prefix dst q \<longrightarrow> map_of L q = None"
  shows "map_of (map (\<lambda>(q, m). (move_key src dst q, m)) L) = moved (map_of L) src dst"
proof
  fix x
  let ?f = "move_key src dst"
  let ?K = "fst ` set L"
  have keys: "k \<in> ?K \<longleftrightarrow> map_of L k \<noteq> None" for k by (simp add: map_of_eq_None_iff)
  have inj: "inj_on ?f ?K"
  proof (rule inj_onI)
    fix a b assume a: "a \<in> ?K" and b: "b \<in> ?K" and eq: "?f a = ?f b"
    from a b empty keys have na: "\<not> prefix dst a" "\<not> prefix dst b" by blast+
    show "a = b"
    proof (cases "prefix src a"; cases "prefix src b")
      assume "prefix src a" "prefix src b"
      with eq show ?thesis by (auto simp: move_key_def prefix_def)
    next
      assume "prefix src a" "\<not> prefix src b"
      with eq na show ?thesis by (auto simp: move_key_def)
    next
      assume "\<not> prefix src a" "prefix src b"
      with eq na show ?thesis by (auto simp: move_key_def)
    next
      assume "\<not> prefix src a" "\<not> prefix src b"
      with eq show ?thesis by (simp add: move_key_def)
    qed
  qed
  show "map_of (map (\<lambda>(q, m). (?f q, m)) L) x = moved (map_of L) src dst x"
  proof (cases "prefix dst x")
    case True
    then obtain r where x: "x = dst @ r" by (auto simp: prefix_def)
    show ?thesis
    proof (cases "src @ r \<in> ?K")
      case True
      with inj have "map_of (map (\<lambda>(q, m). (?f q, m)) L) (?f (src @ r)) = map_of L (src @ r)"
        by (rule map_of_rekey_in)
      with x show ?thesis by (simp add: move_key_under moved_def)
    next
      case False
      have "x \<notin> ?f ` ?K"
      proof
        assume "x \<in> ?f ` ?K"
        then obtain k where k: "k \<in> ?K" "x = ?f k" by blast
        show False
        proof (cases "prefix src k")
          case True
          then obtain r' where "k = src @ r'" by (auto simp: prefix_def)
          with k x False show False by (simp add: move_key_under)
        next
          case False
          with k x have "prefix dst k" by (auto simp: move_key_def prefix_def)
          with k empty keys show False by blast
        qed
      qed
      then have "map_of (map (\<lambda>(q, m). (?f q, m)) L) x = None" by (rule map_of_rekey_out)
      with False x keys show ?thesis by (simp add: moved_def)
    qed
  next
    case nx: False
    have out: "x \<notin> ?f ` ?K" if "prefix src x \<or> x \<notin> ?K"
    proof
      assume "x \<in> ?f ` ?K"
      then obtain k where k: "k \<in> ?K" "x = ?f k" by blast
      show False
      proof (cases "prefix src k")
        case True
        with k nx show False by (auto simp: move_key_def)
      next
        case False
        with k have "x = k" by (simp add: move_key_def)
        with that k False show False by auto
      qed
    qed
    show ?thesis
    proof (cases "prefix src x \<or> x \<notin> ?K")
      case True
      from map_of_rekey_out[OF out[OF True]] True nx keys show ?thesis
        by (auto simp: moved_def)
    next
      case False
      then have "x \<in> ?K" "\<not> prefix src x" by auto
      with inj have "map_of (map (\<lambda>(q, m). (?f q, m)) L) (?f x) = map_of L x"
        by (intro map_of_rekey_in)
      with \<open>\<not> prefix src x\<close> nx show ?thesis by (simp add: move_key_def moved_def)
    qed
  qed
qed


lemma is_dir_map_eq: "map_of fs' = m \<Longrightarrow> is_dir fs' p \<longleftrightarrow> p = [] \<or> m p = Some Dir"
  by (auto simp: is_dir_def)

lemma wf_fs_by_map:
  assumes d: "distinct (map fst fs')" and m: "map_of fs' = M"
    and par: "\<And>p n. M p = Some n \<Longrightarrow> p \<noteq> [] \<and> (butlast p = [] \<or> M (butlast p) = Some Dir)"
  shows "wf_fs fs'"
  using d par by (intro wf_fsI) (auto simp: m is_dir_def)

lemma prefix_butlast_prefix: "prefix a (butlast q) \<Longrightarrow> prefix a q"
  by (metis prefix_order.trans prefixeq_butlast)

lemma wf_moved:
  assumes wf: "wf_fs L" and nd: "\<not> prefix dst src" "\<not> prefix src dst"
    and empty: "\<forall>q. prefix dst q \<longrightarrow> map_of L q = None"
    and ne: "src \<noteq> []" "dst \<noteq> []" and pd: "is_dir L (butlast dst)"
  shows "wf_fs (map (\<lambda>(q, m). (move_key src dst q, m)) L)"
proof (rule wf_fs_by_map)
  let ?f = "move_key src dst"
  let ?K = "fst ` set L"
  have keys: "k \<in> ?K \<longleftrightarrow> map_of L k \<noteq> None" for k by (simp add: map_of_eq_None_iff)
  have inj: "inj_on ?f ?K"
  proof (rule inj_onI)
    fix a b assume a: "a \<in> ?K" and b: "b \<in> ?K" and eq: "?f a = ?f b"
    from a b empty keys have na: "\<not> prefix dst a" "\<not> prefix dst b" by blast+
    with eq show "a = b"
      by (cases "prefix src a"; cases "prefix src b") (auto simp: move_key_def prefix_def)
  qed
  from wf inj show "distinct (map fst (map (\<lambda>(q, m). (?f q, m)) L))"
    by (intro distinct_rekey) (simp_all add: wf_fs_def)
  show "map_of (map (\<lambda>(q, m). (?f q, m)) L) = moved (map_of L) src dst"
    using wf nd empty by (rule rename_dir_map_of)
  fix q n assume q: "moved (map_of L) src dst q = Some n"
  show "q \<noteq> [] \<and> (butlast q = [] \<or> moved (map_of L) src dst (butlast q) = Some Dir)"
  proof (cases "prefix dst q")
    case True
    then obtain r where qr: "q = dst @ r" by (auto simp: prefix_def)
    with q have sr: "map_of L (src @ r) = Some n" by (simp add: moved_def)
    show ?thesis
    proof (cases "r = []")
      case True
      have "\<not> prefix dst (butlast dst)"
        using ne(2) by (metis butlast_neq_self prefix_length_le prefix_order.eq_iff prefixeq_butlast)
      moreover have "\<not> prefix src (butlast dst)"
        using nd(2) prefix_butlast_prefix by blast
      ultimately show ?thesis using True qr ne(2) pd by (simp add: moved_def is_dir_def)
    next
      case False
      from wf sr have "is_dir L (butlast (src @ r))" by (blast dest: wf_fs_parent)
      with False ne(1) have "map_of L (src @ butlast r) = Some Dir"
        by (simp add: is_dir_def butlast_append)
      with False qr ne(2) show ?thesis by (simp add: moved_def butlast_append)
    qed
  next
    case False
    with q have ns: "\<not> prefix src q" and lq: "map_of L q = Some n"
      by (auto simp: moved_def split: if_splits)
    from wf lq have h: "q \<noteq> [] \<and> is_dir L (butlast q)" by (rule wf_fs_parent)
    have "\<not> prefix dst (butlast q)" "\<not> prefix src (butlast q)"
      using False ns prefix_butlast_prefix by blast+
    with h show ?thesis by (auto simp: moved_def is_dir_def)
  qed
qed


lemma has_children_delete: "has_children (AList.delete p fs) q \<Longrightarrow> has_children fs q"
  by (auto simp: has_children_iff delete_conv' split: if_splits)

lemma wf_file_not_parent:
  "map_of fs src = Some (File c t) \<Longrightarrow> src \<noteq> [] \<Longrightarrow> is_dir fs p \<Longrightarrow> p \<noteq> src"
  by (auto simp: is_dir_def)

lemma rename_cases:
  assumes "rename fs src dst = Inr fs'"
  obtains (same) "fs' = fs" "src = dst"
  | (plain) c t where "src \<noteq> []" "dst \<noteq> []" "src \<noteq> dst" "map_of fs src = Some (File c t)"
      "is_dir fs (butlast dst)" "map_of fs dst \<noteq> Some Dir"
      "fs' = AList.update dst (File c t) (AList.delete src fs)"
  | (dir_new) "src \<noteq> []" "dst \<noteq> []" "src \<noteq> dst" "map_of fs src = Some Dir"
      "is_dir fs (butlast dst)" "\<not> strict_prefix src dst" "map_of fs dst = None"
      "fs' = map (\<lambda>(q, m). (move_key src dst q, m)) fs"
  | (dir_empty) "src \<noteq> []" "dst \<noteq> []" "src \<noteq> dst" "map_of fs src = Some Dir"
      "is_dir fs (butlast dst)" "\<not> strict_prefix src dst" "map_of fs dst = Some Dir"
      "\<not> has_children fs dst"
      "fs' = map (\<lambda>(q, m). (move_key src dst q, m)) (AList.delete dst fs)"
  using assms unfolding rename_def
  by (auto split: if_splits option.splits node.splits)

lemma rename_dir_guards:
  assumes wf: "wf_fs fs" and s: "src \<noteq> dst" "\<not> strict_prefix src dst" "dst \<noteq> []"
    and d: "map_of fs dst = None \<or> (map_of fs dst = Some Dir \<and> \<not> has_children fs dst)"
    and src: "map_of fs src = Some Dir"
  shows "\<not> prefix dst src" "\<not> prefix src dst"
proof -
  show "\<not> prefix src dst" using s by (simp add: strict_prefix_def)
  show "\<not> prefix dst src"
  proof
    assume "prefix dst src"
    with s have sp: "strict_prefix dst src" by (simp add: strict_prefix_def)
    with src have "has_children fs dst" by (auto simp: has_children_iff)
    moreover from wf src sp have "is_dir fs dst" by (rule wf_fs_ancestor)
    ultimately show False using d sp s(3) by (auto simp: is_dir_def)
  qed
qed

lemma absent_subtree:
  assumes wf: "wf_fs fs" and d: "dst \<noteq> []" "map_of fs dst = None" and q: "prefix dst q"
  shows "map_of fs q = None"
proof (cases "q = dst")
  case False
  show ?thesis
  proof (rule ccontr)
    assume "map_of fs q \<noteq> None"
    moreover from q False have "strict_prefix dst q" by (simp add: strict_prefix_def)
    ultimately have "is_dir fs dst" using wf_fs_ancestor[OF wf] by blast
    with d show False by (simp add: is_dir_def)
  qed
qed (use d in simp)

lemma empty_subtree_delete:
  "map_of fs dst = Some Dir \<Longrightarrow> \<not> has_children fs dst \<Longrightarrow> prefix dst q \<Longrightarrow>
   map_of (AList.delete dst fs) q = None"
  by (cases "q = dst") (auto simp: delete_conv' has_children_iff strict_prefix_def)

lemma moved_delete_dst:
  assumes "\<not> prefix src dst"
  shows "moved (map_of (AList.delete dst fs)) src dst = moved (map_of fs) src dst"
proof
  fix q
  have "src @ drop (length dst) q \<noteq> dst" using assms by (metis prefixI)
  moreover have "\<not> prefix dst q \<Longrightarrow> q \<noteq> dst" by auto
  ultimately show "moved (map_of (AList.delete dst fs)) src dst q = moved (map_of fs) src dst q"
    by (simp add: moved_def delete_conv')
qed

lemma wf_rename: "wf_fs fs \<Longrightarrow> rename fs src dst = Inr fs' \<Longrightarrow> wf_fs fs'"
proof -
  assume wf: "wf_fs fs" and r: "rename fs src dst = Inr fs'"
  from r show ?thesis
  proof (cases rule: rename_cases)
    case same
    with wf show ?thesis by simp
  next
    case (plain c t)
    have nc: "\<not> has_children fs src"
      using wf_fs_children_dir[OF wf, of src] plain by (auto simp: is_dir_def)
    with wf have wf1: "wf_fs (AList.delete src fs)" by (rule wf_fs_delete_leaf)
    have "butlast dst \<noteq> src" using plain wf_file_not_parent by blast
    then have pd: "is_dir (AList.delete src fs) (butlast dst)"
      using plain by (simp add: is_dir_def delete_conv')
    have "\<not> has_children fs dst"
    proof
      assume "has_children fs dst"
      then have "is_dir fs dst" by (rule wf_fs_children_dir[OF wf])
      with plain(2,6) show False by (simp add: is_dir_def)
    qed
    then have "\<not> has_children (AList.delete src fs) dst" using has_children_delete by blast
    then have "wf_fs (AList.update dst (File c t) (AList.delete src fs))"
      using wf_update[OF wf1 plain(2) pd] by blast
    with plain(7) show ?thesis by simp
  next
    case dir_new
    have g: "\<not> prefix dst src" "\<not> prefix src dst"
      using rename_dir_guards[OF wf] dir_new by blast+
    have "\<forall>q. prefix dst q \<longrightarrow> map_of fs q = None"
      using absent_subtree[OF wf] dir_new by blast
    with wf g dir_new show ?thesis by (simp add: wf_moved)
  next
    case dir_empty
    have g: "\<not> prefix dst src" "\<not> prefix src dst"
      using rename_dir_guards[OF wf] dir_empty by blast+
    from wf dir_empty have wf1: "wf_fs (AList.delete dst fs)" by (simp add: wf_fs_delete_leaf)
    have "\<forall>q. prefix dst q \<longrightarrow> map_of (AList.delete dst fs) q = None"
      using dir_empty empty_subtree_delete by blast
    moreover have "is_dir (AList.delete dst fs) (butlast dst)"
      using dir_empty butlast_neq_self by (simp add: is_dir_def delete_conv')
    ultimately show ?thesis using wf1 g dir_empty by (simp add: wf_moved)
  qed
qed

lemma rename_dir_effect:
  assumes wf: "wf_fs fs" and r: "rename fs src dst = Inr fs'" and src: "map_of fs src = Some Dir"
    and ne: "src \<noteq> dst"
  shows "map_of fs' = moved (map_of fs) src dst"
  using r
proof (cases rule: rename_cases)
  case dir_new
  have g: "\<not> prefix dst src" "\<not> prefix src dst"
    using rename_dir_guards[OF wf] dir_new by blast+
  have "\<forall>q. prefix dst q \<longrightarrow> map_of fs q = None"
    using absent_subtree[OF wf] dir_new by blast
  with wf g dir_new show ?thesis by (simp add: rename_dir_map_of)
next
  case dir_empty
  have g: "\<not> prefix dst src" "\<not> prefix src dst"
    using rename_dir_guards[OF wf] dir_empty by blast+
  from wf dir_empty have wf1: "wf_fs (AList.delete dst fs)" by (simp add: wf_fs_delete_leaf)
  have "\<forall>q. prefix dst q \<longrightarrow> map_of (AList.delete dst fs) q = None"
    using dir_empty empty_subtree_delete by blast
  with wf1 g dir_empty have "map_of fs' = moved (map_of (AList.delete dst fs)) src dst"
    by (simp add: rename_dir_map_of)
  also have "\<dots> = moved (map_of fs) src dst"
    using g(2) by (rule moved_delete_dst)
  finally show ?thesis .
qed (use src ne in auto)

lemma rename_file_effect:
  "rename fs src dst = Inr fs' \<Longrightarrow> map_of fs src = Some (File c t) \<Longrightarrow> src \<noteq> dst \<Longrightarrow>
   map_of fs' = (map_of fs)(src := None, dst \<mapsto> File c t)"
  by (erule rename_cases) (auto simp: update_conv' delete_conv')

lemma rename_frame:
  assumes wf: "wf_fs fs" and r: "rename fs src dst = Inr fs'"
    and q: "\<not> prefix src q" "\<not> prefix dst q"
  shows "map_of fs' q = map_of fs q"
proof (cases "src = dst")
  case True
  with r show ?thesis by (auto elim: rename_cases)
next
  case False
  show ?thesis
  proof (cases "map_of fs src")
    case None
    with r show ?thesis by (simp add: rename_def split: if_splits)
  next
    case (Some n)
    then show ?thesis
    proof (cases n)
      case (File c t)
      with Some rename_file_effect[OF r _ False] q show ?thesis by auto
    next
      case Dir
      with Some rename_dir_effect[OF wf r _ False] q show ?thesis by (simp add: moved_def)
    qed
  qed
qed

subsection \<open>When the updates succeed\<close>

lemma not_prefix_butlast: "p \<noteq> [] \<Longrightarrow> \<not> prefix p (butlast p)"
  using prefix_length_le[of p "butlast p"] by (cases p rule: rev_cases) auto

lemma exists_not_dir_file: "fs_exists fs q \<Longrightarrow> \<not> is_dir fs q \<Longrightarrow> is_file fs q"
  by (auto simp: fs_exists_def is_dir_def is_file_def split: option.splits node.splits)

lemma mkdirs_ok:
  "(\<forall>q. strict_prefix base q \<longrightarrow> prefix q (base @ cs) \<longrightarrow> \<not> is_file fs q) \<Longrightarrow>
   \<exists>fs'. mkdirs fs base cs = Inr fs'"
proof (induction cs arbitrary: fs base)
  case Nil
  then show ?case by simp
next
  case (Cons c cs)
  let ?q = "base @ [c]"
  have sp: "strict_prefix base ?q" by (simp add: strict_prefix_def)
  have below: "strict_prefix ?q q' \<Longrightarrow> strict_prefix base q'" for q'
    using sp prefix_order.less_trans by blast
  show ?case
  proof (cases "is_dir fs ?q")
    case True
    have "\<forall>q'. strict_prefix ?q q' \<longrightarrow> prefix q' (?q @ cs) \<longrightarrow> \<not> is_file fs q'"
      using Cons.prems below by simp
    with True Cons.IH[of ?q fs] show ?thesis by simp
  next
    case False
    have nf: "\<not> is_file fs ?q" using Cons.prems sp by simp
    with False have ne: "\<not> fs_exists fs ?q" using exists_not_dir_file by blast
    have "\<forall>q'. strict_prefix ?q q' \<longrightarrow> prefix q' (?q @ cs) \<longrightarrow> \<not> is_file (AList.update ?q Dir fs) q'"
      using Cons.prems below by (auto simp: is_file_def update_conv')
    with Cons.IH[of ?q "AList.update ?q Dir fs"] False ne show ?thesis by (simp add: Let_def)
  qed
qed

lemma create_dir_all_ok:
  "(\<forall>q. prefix q p \<longrightarrow> \<not> is_file fs q) \<Longrightarrow> \<exists>fs'. create_dir_all fs p = Inr fs'"
  using mkdirs_ok[of "[]" p fs] by (simp add: create_dir_all_def)

lemma wf_fs_root: "wf_fs fs \<Longrightarrow> map_of fs [] = None"
  using wf_fs_parent by (cases "map_of fs []") auto

subsection \<open>Lifted calls\<close>

lemma io_apply [res_simps]:
  "io msg f fs = (case f fs of Inl e \<Rightarrow> (Inl (IoError msg e), fs) | Inr fs' \<Rightarrow> (Inr (), fs'))"
  by (simp add: io_def)

lemma keeps_io:
  "(\<And>fs fs'. P fs \<Longrightarrow> f fs = Inr fs' \<Longrightarrow> P fs') \<Longrightarrow> keeps P (io msg f)"
  by (auto simp: keeps_def io_def split: sum.splits)

lemma raises_io [intro]: "(\<And>ie. P (IoError msg ie)) \<Longrightarrow> raises P (io msg f)"
  by (simp add: raises_def io_def split: sum.splits)

lemma keeps_wf_create_dir_all [intro]: "keeps wf_fs (io msg (\<lambda>fs. create_dir_all fs p))"
  by (rule keeps_io) (simp add: wf_create_dir_all)

lemma keeps_wf_write_file [intro]: "keeps wf_fs (io msg (\<lambda>fs. write_file fs p c t))"
  by (rule keeps_io) (rule wf_write_file)

lemma keeps_wf_remove_file [intro]: "keeps wf_fs (io msg (\<lambda>fs. remove_file fs p))"
  by (rule keeps_io) (rule wf_remove_file)

lemma keeps_wf_remove_dir [intro]: "keeps wf_fs (io msg (\<lambda>fs. remove_dir fs p))"
  by (rule keeps_io) (rule wf_remove_dir)

lemma keeps_wf_rename [intro]: "keeps wf_fs (io msg (\<lambda>fs. rename fs src dst))"
  by (rule keeps_io) (rule wf_rename)

text \<open>The definitions a concrete state is evaluated with.\<close>

lemmas fs_eval = fs_exists_def is_dir_def is_file_def has_children_def write_file_def
  remove_file_def remove_dir_def rename_def create_dir_all_def move_key_def read_to_string_def
  read_dir_def walk_next_is_some_def descendants_def

end
