(* ===== verification/Paths.thy ===== *)
theory Paths
  imports Fs
begin

text \<open>
  The Path Resolver of \<open>vault.rs\<close> (lines 13--35 and 91--101): the vault root under the
  home directory, the lexical check of a vault-relative path, its resolution against the
  root, and the way back from an absolute path to the vault-relative string the
  operations return. Rust's \<open>Path\<close> is modelled on Unix: a string is split at \<open>/\<close>, empty
  and \<open>.\<close> components vanish when it is joined to a path, a leading \<open>/\<close> makes it
  absolute, and \<open>..\<close> is the parent-directory component.
\<close>

definition homebase_vault_root :: "sysenv \<Rightarrow> vault_error + path" where
  "homebase_vault_root env =
     (case home_dir env of
        None \<Rightarrow> Inl HomeDirUnavailable
      | Some home \<Rightarrow> Inr (home @ [''Homebase'']))"

text \<open>The strings between the separators, and the components \<open>Path::components\<close> yields
  when the string is joined to a path.\<close>

fun split_path :: "string \<Rightarrow> string list" where
  "split_path [] = [[]]"
| "split_path (c # cs) =
     (let r = split_path cs in if c = CHR ''/'' then [] # r else (c # hd r) # tl r)"

definition path_components :: "string \<Rightarrow> string list" where
  "path_components s = filter (\<lambda>c. c \<noteq> [] \<and> c \<noteq> ''.'') (split_path s)"

definition is_absolute :: "string \<Rightarrow> bool" where
  "is_absolute s \<longleftrightarrow> starts_with s ''/''"

text \<open>\<open>PathBuf::join\<close>: an absolute argument replaces the base.\<close>

definition join :: "path \<Rightarrow> string \<Rightarrow> path" where
  "join base s = (if is_absolute s then path_components s else base @ path_components s)"

definition validate_relative_path :: "string \<Rightarrow> vault_error + string" where
  "validate_relative_path path =
     (if is_absolute path then Inl (InvalidPath ''Path must be relative'')
      else if ''..'' \<in> set (path_components path)
      then Inl (InvalidPath (''Path must not contain '..'' @ [CHR 0x27]))
      else Inr path)"

definition resolve_vault_path :: "sysenv \<Rightarrow> string \<Rightarrow> vault_error + path" where
  "resolve_vault_path env relative_path =
     (case homebase_vault_root env of
        Inl e \<Rightarrow> Inl e
      | Inr root \<Rightarrow>
          (case validate_relative_path relative_path of
             Inl e \<Rightarrow> Inl e
           | Inr rel \<Rightarrow> Inr (join root rel)))"

definition path_to_forward_slashes :: "string \<Rightarrow> string" where
  "path_to_forward_slashes s = map (\<lambda>c. if c = CHR 0x5C then CHR ''/'' else c) s"

text \<open>\<open>to_string_lossy\<close> of a relative path given by its components.\<close>

fun path_to_string :: "path \<Rightarrow> string" where
  "path_to_string [] = []"
| "path_to_string [c] = c"
| "path_to_string (c # cs) = c @ ''/'' @ path_to_string cs"

definition relative_from_vault_root :: "sysenv \<Rightarrow> path \<Rightarrow> vault_error + string" where
  "relative_from_vault_root env full_path =
     (case homebase_vault_root env of
        Inl e \<Rightarrow> Inl e
      | Inr root \<Rightarrow>
          if prefix root full_path
          then Inr (path_to_forward_slashes (path_to_string (drop (length root) full_path)))
          else Inl OutsideVault)"

text \<open>The normal form of a relative path the spec speaks of (section 8): its components,
  separated by \<open>/\<close>.\<close>

definition normalize :: "string \<Rightarrow> string" where
  "normalize s = path_to_string (path_components s)"

subsection \<open>Components\<close>

lemma split_path_nonempty [simp]: "split_path s \<noteq> []"
  by (induction s) (auto simp: Let_def)

lemma split_path_no_slash: "c \<in> set (split_path s) \<Longrightarrow> CHR ''/'' \<notin> set c"
proof (induction s arbitrary: c)
  case Nil
  then show ?case by simp
next
  case (Cons x s)
  have "hd (split_path s) \<in> set (split_path s)" "\<And>y. y \<in> set (tl (split_path s)) \<Longrightarrow> y \<in> set (split_path s)"
    by (auto simp: list.set_sel)
  with Cons show ?case by (auto simp: Let_def split: if_splits)
qed

lemma split_path_subset: "c \<in> set (split_path s) \<Longrightarrow> set c \<subseteq> set s"
proof (induction s arbitrary: c)
  case Nil
  then show ?case by simp
next
  case (Cons x s)
  have hd: "set (hd (split_path s)) \<subseteq> set s"
    using Cons.IH[of "hd (split_path s)"] by (simp add: list.set_sel)
  have tl: "c' \<in> set (tl (split_path s)) \<Longrightarrow> set c' \<subseteq> set s" for c'
    using Cons.IH by (meson list.set_sel(2) split_path_nonempty)
  show ?case
  proof (cases "x = CHR ''/''")
    case True
    with Cons.prems Cons.IH show ?thesis by (auto simp: Let_def)
  next
    case False
    with Cons.prems have "c = x # hd (split_path s) \<or> c \<in> set (tl (split_path s))"
      by (simp add: Let_def)
    with hd tl show ?thesis by auto
  qed
qed

lemma path_components_name:
  "c \<in> set (path_components s) \<Longrightarrow> c \<noteq> [] \<and> c \<noteq> ''.'' \<and> CHR ''/'' \<notin> set c \<and> set c \<subseteq> set s"
  by (auto simp: path_components_def dest: split_path_no_slash split_path_subset)

lemma split_path_name: "CHR ''/'' \<notin> set s \<Longrightarrow> split_path s = [s]"
  by (induction s) (auto simp: Let_def)

lemma path_components_name_single:
  "s \<noteq> [] \<Longrightarrow> s \<noteq> ''.'' \<Longrightarrow> CHR ''/'' \<notin> set s \<Longrightarrow> path_components s = [s]"
  by (simp add: path_components_def split_path_name)

lemma set_path_to_string: "set (path_to_string p) \<subseteq> {CHR ''/''} \<union> \<Union> (set ` set p)"
  by (induction p rule: path_to_string.induct) auto

lemma set_normalize: "set (normalize s) \<subseteq> set s \<union> {CHR ''/''}"
  using set_path_to_string[of "path_components s"] path_components_name
  by (fastforce simp: normalize_def)

lemma path_to_forward_slashes_id: "CHR 0x5C \<notin> set s \<Longrightarrow> path_to_forward_slashes s = s"
  by (induction s) (auto simp: path_to_forward_slashes_def)

subsection \<open>Resolution\<close>

lemma validate_relative_path_Inr:
  "validate_relative_path p = Inr r \<longleftrightarrow> \<not> is_absolute p \<and> ''..'' \<notin> set (path_components p) \<and> r = p"
  by (auto simp: validate_relative_path_def)

lemma homebase_vault_root_Inr:
  "homebase_vault_root env = Inr root \<longleftrightarrow> (\<exists>h. home_dir env = Some h \<and> root = h @ [''Homebase''])"
  by (auto simp: homebase_vault_root_def split: option.splits)

lemma resolve_vault_path_Inr:
  "resolve_vault_path env s = Inr full \<longleftrightarrow>
   (\<exists>root. homebase_vault_root env = Inr root \<and> \<not> is_absolute s \<and>
      ''..'' \<notin> set (path_components s) \<and> full = root @ path_components s)"
  by (auto simp: resolve_vault_path_def validate_relative_path_def join_def
      split: sum.splits if_splits)

lemma relative_from_vault_root_append:
  "homebase_vault_root env = Inr root \<Longrightarrow>
   relative_from_vault_root env (root @ r) = Inr (path_to_forward_slashes (path_to_string r))"
  by (simp add: relative_from_vault_root_def)

subsection \<open>Properties of the resolver\<close>

text \<open>C1. A vault-relative path with a parent-directory component is rejected with
  \<open>InvalidPath\<close>, whatever else it holds; the check is lexical and comes before any access
  to the disk (an absolute path is reported as such first).\<close>

theorem resolve_rejects_parent:
  assumes "''..'' \<in> set (path_components s)" and "home_dir env \<noteq> None"
  shows "resolve_vault_path env s =
           Inl (InvalidPath (if is_absolute s then ''Path must be relative''
                             else ''Path must not contain '..'' @ [CHR 0x27]))"
  using assms
  by (auto simp: resolve_vault_path_def validate_relative_path_def homebase_vault_root_def)

theorem resolve_rejects_parent_witness:
  "''..'' \<in> set (path_components ''notes/../../etc'') \<and> home_dir demo_env \<noteq> None \<and>
   resolve_vault_path demo_env ''notes/../../etc'' =
     Inl (InvalidPath (''Path must not contain '..'' @ [CHR 0x27]))"
proof -
  have h: "''..'' \<in> set (path_components ''notes/../../etc'')" by (simp add: path_components_def)
  have a: "\<not> is_absolute ''notes/../../etc''" by (simp add: is_absolute_def)
  show ?thesis using resolve_rejects_parent[OF h, of demo_env] h a by simp
qed

text \<open>C2. Every path the resolver returns lies under the vault root: it is the root followed
  by components that are proper names (not empty, not \<open>.\<close> or \<open>..\<close>, without a
  separator), so no lexical or on-disk normalisation can climb out of the root. The suffix
  is empty exactly when the relative path has no component, e.g. for the empty string or
  \<open>"."\<close>, which resolve to the root itself.\<close>

theorem resolve_within_root:
  assumes "homebase_vault_root env = Inr root" and "resolve_vault_path env s = Inr full"
  shows "\<exists>r. full = root @ r \<and> (\<forall>c \<in> set r. c \<noteq> [] \<and> c \<noteq> ''.'' \<and> c \<noteq> ''..'' \<and> CHR ''/'' \<notin> set c)
              \<and> (r = [] \<longleftrightarrow> path_components s = [])"
proof -
  from assms have full: "full = root @ path_components s" and nd: "''..'' \<notin> set (path_components s)"
    by (auto simp: resolve_vault_path_Inr)
  have "\<forall>c \<in> set (path_components s). c \<noteq> [] \<and> c \<noteq> ''.'' \<and> c \<noteq> ''..'' \<and> CHR ''/'' \<notin> set c"
    using nd path_components_name by blast
  with full show ?thesis by blast
qed

theorem resolve_within_root_witness:
  "homebase_vault_root demo_env = Inr [''home'', ''u'', ''Homebase''] \<and>
   resolve_vault_path demo_env ''notes/./inbox//a.md'' =
     Inr [''home'', ''u'', ''Homebase'', ''notes'', ''inbox'', ''a.md''] \<and>
   (\<exists>r. [''home'', ''u'', ''Homebase'', ''notes'', ''inbox'', ''a.md''] = [''home'', ''u'', ''Homebase''] @ r \<and>
        (\<forall>c \<in> set r. c \<noteq> [] \<and> c \<noteq> ''.'' \<and> c \<noteq> ''..'' \<and> CHR ''/'' \<notin> set c) \<and>
        (r = [] \<longleftrightarrow> path_components ''notes/./inbox//a.md'' = []))"
proof -
  have h1: "homebase_vault_root demo_env = Inr [''home'', ''u'', ''Homebase'']"
    by (simp add: homebase_vault_root_def)
  have h2: "resolve_vault_path demo_env ''notes/./inbox//a.md'' =
     Inr [''home'', ''u'', ''Homebase'', ''notes'', ''inbox'', ''a.md'']"
    by (simp add: resolve_vault_path_def homebase_vault_root_def validate_relative_path_def
        path_components_def is_absolute_def join_def)
  show ?thesis using resolve_within_root[OF h1 h2] h1 h2 by simp
qed

lemma resolve_empty_is_root:
  "homebase_vault_root env = Inr root \<Longrightarrow> resolve_vault_path env [] = Inr root"
  by (simp add: resolve_vault_path_Inr path_components_def is_absolute_def)



text \<open>A file whose name holds a backslash comes back as a different path.\<close>

lemma backslash_breaks_roundtrip:
  "resolve_vault_path demo_env [CHR ''a'', CHR 0x5C, CHR ''b''] =
     Inr [''home'', ''u'', ''Homebase'', [CHR ''a'', CHR 0x5C, CHR ''b'']] \<and>
   relative_from_vault_root demo_env [''home'', ''u'', ''Homebase'', [CHR ''a'', CHR 0x5C, CHR ''b'']] =
     Inr ''a/b'' \<and>
   resolve_vault_path demo_env ''a/b'' = Inr [''home'', ''u'', ''Homebase'', ''a'', ''b'']"
  by (simp add: resolve_vault_path_def homebase_vault_root_def validate_relative_path_def
      path_components_def is_absolute_def join_def relative_from_vault_root_def
      path_to_forward_slashes_def)

end
