(* ===== verification/AtomicWriter.thy ===== *)
theory AtomicWriter
  imports Paths
begin

text \<open>
  The Atomic Writer, \<open>write_atomic\<close> of \<open>vault.rs\<close> (lines 65--89): create the parent
  directory, write the contents to a sibling temporary file named after the target and a
  fresh UUID, remove the target if it exists, and rename the temporary file into place.
  The UUID is a parameter (\<open>Uuid::new_v4()\<close> is the environment's choice), and so is the
  time the write stamps on the file. The sequence of system calls it issues is also
  given as a list of \<open>syscall\<close>s, so that the states a concurrent reader can observe
  between two calls can be stated.
\<close>

definition tmp_file_name :: "string \<Rightarrow> string \<Rightarrow> string" where
  "tmp_file_name name u = ''.'' @ name @ ''.tmp-'' @ u"

definition write_atomic :: "nat \<Rightarrow> string \<Rightarrow> path \<Rightarrow> string \<Rightarrow> (fs, unit) res" where
  "write_atomic t u path contents =
     (if path = [] then throwE (InvalidPath ''Invalid path (missing parent)'')
      else
        let parent = butlast path;
            tmp_path = parent @ [tmp_file_name (last path) u]
        in bindE (io ''Failed to create directory'' (\<lambda>fs. create_dir_all fs parent)) (\<lambda>_.
           bindE (io ''Failed to write temp file'' (\<lambda>fs. write_file fs tmp_path contents t)) (\<lambda>_.
           bindE (getsE (\<lambda>fs. fs_exists fs path)) (\<lambda>exists.
           bindE (if exists then io ''Failed to replace'' (\<lambda>fs. remove_file fs path)
                  else returnE ()) (\<lambda>_.
           io ''Failed to rename'' (\<lambda>fs. rename fs tmp_path path))))))"

text \<open>System calls as steps, and the states a run of them passes through (it stops at
  the first call that fails).\<close>

datatype syscall = MkdirAll path | WriteFile path string nat | RemoveFile path | Rename path path

fun syscall_apply :: "fs \<Rightarrow> syscall \<Rightarrow> io_error + fs" where
  "syscall_apply fs (MkdirAll p) = create_dir_all fs p"
| "syscall_apply fs (WriteFile p c t) = write_file fs p c t"
| "syscall_apply fs (RemoveFile p) = remove_file fs p"
| "syscall_apply fs (Rename p q) = rename fs p q"

fun run_syscalls :: "fs \<Rightarrow> syscall list \<Rightarrow> fs list" where
  "run_syscalls fs [] = []"
| "run_syscalls fs (c # cs) =
     (case syscall_apply fs c of Inl e \<Rightarrow> [] | Inr fs' \<Rightarrow> fs' # run_syscalls fs' cs)"

text \<open>The calls \<open>write_atomic\<close> issues, given whether the target exists when it is
  checked.\<close>

definition write_atomic_calls :: "nat \<Rightarrow> string \<Rightarrow> path \<Rightarrow> string \<Rightarrow> bool \<Rightarrow> syscall list" where
  "write_atomic_calls t u path contents exists =
     (let parent = butlast path; tmp_path = parent @ [tmp_file_name (last path) u]
      in [MkdirAll parent, WriteFile tmp_path contents t] @
         (if exists then [RemoveFile path] else []) @ [Rename tmp_path path])"

text \<open>The paths a system call leaves alone: all but the directories it may create, the
  file it writes or removes, and the subtrees a rename moves from and to.\<close>

fun untouched :: "syscall \<Rightarrow> path \<Rightarrow> bool" where
  "untouched (MkdirAll p) q = (\<not> prefix q p)"
| "untouched (WriteFile p c t) q = (q \<noteq> p)"
| "untouched (RemoveFile p) q = (q \<noteq> p)"
| "untouched (Rename src dst) q = (\<not> prefix src q \<and> \<not> prefix dst q)"

text \<open>The state the examples start from: \<open>/h/a/x.md\<close> holds \<open>old\<close>.\<close>

abbreviation demo_note_fs :: fs where
  "demo_note_fs \<equiv> [([''h''], Dir), ([''h'', ''a''], Dir), ([''h'', ''a'', ''x.md''], File ''old'' 1)]"

subsection \<open>The run of the system calls\<close>

lemma tmp_file_name_neq: "tmp_file_name name u \<noteq> name"
proof
  assume "tmp_file_name name u = name"
  then have "length (tmp_file_name name u) = length name" by simp
  then show False by (simp add: tmp_file_name_def)
qed

lemma tmp_path_neq: "p \<noteq> [] \<Longrightarrow> butlast p @ [tmp_file_name (last p) u] \<noteq> p"
  by (metis append_butlast_last_id last_snoc tmp_file_name_neq)

lemma exists_after_prep:
  assumes p: "p \<noteq> []" and s1: "create_dir_all fs (butlast p) = Inr s1"
    and s2: "write_file s1 (butlast p @ [tmp_file_name (last p) u]) c t = Inr s2"
  shows "map_of s2 p = map_of fs p"
proof -
  have "map_of s1 p = map_of fs p"
    using create_dir_all_map_of[OF s1, of p] not_prefix_butlast[OF p] by auto
  moreover have "p \<noteq> butlast p @ [tmp_file_name (last p) u]"
    using tmp_path_neq[OF p] by metis
  then have "map_of s2 p = map_of s1 p"
    using map_of_write_file[OF s2] by simp
  ultimately show ?thesis by simp
qed

lemma write_atomic_run:
  assumes p: "p \<noteq> []" and w: "write_atomic t u p c fs = (r, fs')"
  shows "fs' = last (fs # run_syscalls fs (write_atomic_calls t u p c (fs_exists fs p))) \<and>
         (r = Inr () \<longleftrightarrow> length (run_syscalls fs (write_atomic_calls t u p c (fs_exists fs p))) =
                        length (write_atomic_calls t u p c (fs_exists fs p)))"
proof -
  let ?tmp = "butlast p @ [tmp_file_name (last p) u]"
  show ?thesis
  proof (cases "create_dir_all fs (butlast p)")
    case (Inl e)
    with p w show ?thesis
      by (auto simp: write_atomic_def write_atomic_calls_def Let_def res_simps)
  next
    case (Inr s1)
    note s1 = this
    show ?thesis
    proof (cases "write_file s1 ?tmp c t")
      case (Inl e)
      with s1 p w show ?thesis
        by (auto simp: write_atomic_def write_atomic_calls_def Let_def res_simps)
    next
      case (Inr s2)
      note s2 = this
      have ex: "fs_exists s2 p = fs_exists fs p"
        using exists_after_prep[OF p s1 s2] by (simp add: fs_exists_def)
      show ?thesis
      proof (cases "fs_exists fs p")
        case True
        show ?thesis
        proof (cases "remove_file s2 p")
          case (Inl e)
          with s1 s2 ex True p w show ?thesis
            by (auto simp: write_atomic_def write_atomic_calls_def Let_def res_simps)
        next
          case (Inr s3)
          with s1 s2 ex True p w show ?thesis
            by (auto simp: write_atomic_def write_atomic_calls_def Let_def res_simps
                split: sum.splits)
        qed
      next
        case False
        with s1 s2 ex p w show ?thesis
          by (auto simp: write_atomic_def write_atomic_calls_def Let_def res_simps
              split: sum.splits)
      qed
    qed
  qed
qed


lemma rename_tmp_into_place:
  "map_of s tmp = Some (File c t) \<Longrightarrow> tmp \<noteq> p \<Longrightarrow> rename s tmp p = Inr s' \<Longrightarrow>
   map_of s' p = Some (File c t) \<and> map_of s' tmp = None"
  using rename_file_effect by fastforce

lemma write_atomic_visible:
  assumes p: "p \<noteq> []"
  shows "\<forall>s \<in> set (run_syscalls fs (write_atomic_calls t u p c (fs_exists fs p))).
           map_of s p = map_of fs p \<or> map_of s p = None \<or> map_of s p = Some (File c t)"
proof -
  let ?tmp = "butlast p @ [tmp_file_name (last p) u]"
  have tp: "?tmp \<noteq> p" using tmp_path_neq[OF p] by metis
  show ?thesis
  proof (cases "create_dir_all fs (butlast p)")
    case (Inl e)
    then show ?thesis by (simp add: write_atomic_calls_def Let_def)
  next
    case (Inr s1)
    have m1: "map_of s1 p = map_of fs p"
      using create_dir_all_map_of[OF Inr, of p] not_prefix_butlast[OF p] by auto
    show ?thesis
    proof (cases "write_file s1 ?tmp c t")
      case (Inl e)
      with Inr m1 show ?thesis by (simp add: write_atomic_calls_def Let_def)
    next
      case s2: (Inr s2)
      have m2: "map_of s2 p = map_of fs p" "map_of s2 ?tmp = Some (File c t)"
        using map_of_write_file[OF s2] m1 tp by auto
      have last_step: "map_of s' p = Some (File c t)"
        if "rename s ?tmp p = Inr s'" "map_of s ?tmp = Some (File c t)" for s s'
        using rename_tmp_into_place that tp by blast
      show ?thesis
      proof (cases "fs_exists fs p")
        case True
        show ?thesis
        proof (cases "remove_file s2 p")
          case (Inl e)
          with Inr s2 m1 m2 True show ?thesis by (simp add: write_atomic_calls_def Let_def)
        next
          case s3: (Inr s3)
          have m3: "map_of s3 p = None" "map_of s3 ?tmp = Some (File c t)"
            using map_of_remove_file[OF s3] m2 tp by auto
          with Inr s2 s3 m1 m2 True last_step show ?thesis
            by (auto simp: write_atomic_calls_def Let_def split: sum.splits)
        qed
      next
        case False
        with Inr s2 m1 m2 last_step show ?thesis
          by (auto simp: write_atomic_calls_def Let_def split: sum.splits)
      qed
    qed
  qed
qed




lemma write_atomic_Inr_steps:
  assumes p: "p \<noteq> []" and w: "write_atomic t u p c fs = (Inr (), fs')"
  obtains s1 s2 s3 where "create_dir_all fs (butlast p) = Inr s1"
    "write_file s1 (butlast p @ [tmp_file_name (last p) u]) c t = Inr s2"
    "if fs_exists fs p then remove_file s2 p = Inr s3 else s3 = s2"
    "rename s3 (butlast p @ [tmp_file_name (last p) u]) p = Inr fs'"
proof -
  let ?tmp = "butlast p @ [tmp_file_name (last p) u]"
  obtain s1 where s1: "create_dir_all fs (butlast p) = Inr s1"
    using p w by (cases "create_dir_all fs (butlast p)")
      (auto simp: write_atomic_def Let_def res_simps)
  obtain s2 where s2: "write_file s1 ?tmp c t = Inr s2"
    using p w s1 by (cases "write_file s1 ?tmp c t") (auto simp: write_atomic_def Let_def res_simps)
  have ex: "fs_exists s2 p = fs_exists fs p"
    using exists_after_prep[OF p s1 s2] by (simp add: fs_exists_def)
  obtain s3 where s3: "if fs_exists fs p then remove_file s2 p = Inr s3 else s3 = s2"
    using p w s1 s2 ex
    by (cases "remove_file s2 p") (auto simp: write_atomic_def Let_def res_simps)
  have "rename s3 ?tmp p = Inr fs'"
    using p w s1 s2 s3 ex
    by (cases "rename s3 ?tmp p") (auto simp: write_atomic_def Let_def res_simps split: if_splits)
  with s1 s2 s3 that show ?thesis by blast
qed

lemma write_atomic_Inr_effect:
  assumes p: "p \<noteq> []" and w: "write_atomic t u p c fs = (Inr (), fs')"
  shows "map_of fs' p = Some (File c t) \<and>
         map_of fs' (butlast p @ [tmp_file_name (last p) u]) = None \<and>
         (\<forall>q. q \<noteq> p \<longrightarrow> q \<noteq> butlast p @ [tmp_file_name (last p) u] \<longrightarrow>
              map_of fs' q = map_of fs q \<or>
              (strict_prefix q p \<and> map_of fs q = None \<and> map_of fs' q = Some Dir))"
proof -
  let ?tmp = "butlast p @ [tmp_file_name (last p) u]"
  have tp: "?tmp \<noteq> p" using tmp_path_neq[OF p] by metis
  obtain s1 s2 s3 where s1: "create_dir_all fs (butlast p) = Inr s1"
    and s2: "write_file s1 ?tmp c t = Inr s2"
    and s3: "if fs_exists fs p then remove_file s2 p = Inr s3 else s3 = s2"
    and s4: "rename s3 ?tmp p = Inr fs'"
    using write_atomic_Inr_steps[OF p w] by blast
  have m2: "map_of s2 = (map_of s1)(?tmp \<mapsto> File c t)" by (rule map_of_write_file[OF s2])
  have m3: "map_of s3 = (map_of s2)(p := None) \<or> s3 = s2"
    using s3 map_of_remove_file by (auto split: if_splits)
  then have t3: "map_of s3 ?tmp = Some (File c t)" using m2 tp by auto
  have m4: "map_of fs' = (map_of s3)(?tmp := None, p \<mapsto> File c t)"
    using rename_file_effect[OF s4 t3 tp] .
  have m1: "map_of s1 q = map_of fs q \<or> (map_of fs q = None \<and> map_of s1 q = Some Dir \<and> strict_prefix q p)"
    for q
  proof -
    have "prefix q (butlast p) \<Longrightarrow> strict_prefix q p"
      using strict_prefix_butlast[OF p] prefix_order.le_less_trans by blast
    then show ?thesis using create_dir_all_map_of[OF s1, of q] by auto
  qed
  show ?thesis
  proof (intro conjI allI impI)
    show "map_of fs' p = Some (File c t)" using m4 by simp
    show "map_of fs' ?tmp = None" using m4 tp by simp
    fix q assume "q \<noteq> p" "q \<noteq> ?tmp"
    with m4 m3 m2 have "map_of fs' q = map_of s1 q" by auto
    with m1[of q] show "map_of fs' q = map_of fs q \<or>
        (strict_prefix q p \<and> map_of fs q = None \<and> map_of fs' q = Some Dir)" by auto
  qed
qed


text \<open>C5. A write that succeeds leaves the complete new contents at the target, stamped
  with the time of the write, and no temporary file; every other path keeps its node, but
  for missing directories above the target, which are created.\<close>

theorem write_atomic_effect:
  assumes p: "p \<noteq> []" and w: "write_atomic t u p c fs = (Inr (), fs')"
  shows "map_of fs' p = Some (File c t) \<and>
         map_of fs' (butlast p @ [tmp_file_name (last p) u]) = None \<and>
         (\<forall>q. q \<noteq> p \<longrightarrow> q \<noteq> butlast p @ [tmp_file_name (last p) u] \<longrightarrow>
              map_of fs' q = map_of fs q \<or>
              (strict_prefix q p \<and> map_of fs q = None \<and> map_of fs' q = Some Dir))"
  using assms by (rule write_atomic_Inr_effect)

theorem write_atomic_effect_witness:
  "[''h'', ''a'', ''x.md''] \<noteq> [] \<and>
   write_atomic 5 ''U'' [''h'', ''a'', ''x.md''] ''new'' demo_note_fs =
     (Inr (), [([''h''], Dir), ([''h'', ''a''], Dir), ([''h'', ''a'', ''x.md''], File ''new'' 5)]) \<and>
   map_of [([''h''], Dir), ([''h'', ''a''], Dir), ([''h'', ''a'', ''x.md''], File ''new'' 5)]
     [''h'', ''a'', ''x.md''] = Some (File ''new'' 5)"
proof -
  have h1: "[''h'', ''a'', ''x.md''] \<noteq> []" by simp
  have h2: "write_atomic 5 ''U'' [''h'', ''a'', ''x.md''] ''new'' demo_note_fs =
     (Inr (), [([''h''], Dir), ([''h'', ''a''], Dir), ([''h'', ''a'', ''x.md''], File ''new'' 5)])"
    by code_simp
  show ?thesis using write_atomic_effect[OF h1 h2] h2 by simp
qed

lemma write_atomic_prep:
  assumes wf: "wf_fs fs" and p: "p \<noteq> []"
    and anc: "\<forall>q. strict_prefix q p \<longrightarrow> \<not> is_file fs q"
    and td: "map_of fs (butlast p @ [tmp_file_name (last p) u]) \<noteq> Some Dir"
  obtains s1 where "create_dir_all fs (butlast p) = Inr s1"
    "write_file s1 (butlast p @ [tmp_file_name (last p) u]) c t =
       Inr (AList.update (butlast p @ [tmp_file_name (last p) u]) (File c t) s1)"
    "map_of (AList.update (butlast p @ [tmp_file_name (last p) u]) (File c t) s1) p = map_of fs p"
    "map_of (AList.update (butlast p @ [tmp_file_name (last p) u]) (File c t) s1)
       (butlast p @ [tmp_file_name (last p) u]) = Some (File c t)"
    "is_dir (AList.update (butlast p @ [tmp_file_name (last p) u]) (File c t) s1) (butlast p)"
proof -
  let ?tmp = "butlast p @ [tmp_file_name (last p) u]"
  have tp: "?tmp \<noteq> p" using tmp_path_neq[OF p] by metis
  have below: "prefix q (butlast p) \<Longrightarrow> strict_prefix q p" for q
    using strict_prefix_butlast[OF p] prefix_order.le_less_trans by blast
  obtain s1 where s1: "create_dir_all fs (butlast p) = Inr s1"
    using create_dir_all_ok[of "butlast p" fs] anc below by blast
  have d1: "is_dir s1 (butlast p)" using wf_create_dir_all[OF wf s1] by simp
  have tnp: "\<not> prefix ?tmp (butlast p)" using prefix_length_le by fastforce
  have m1: "map_of s1 ?tmp = map_of fs ?tmp" "map_of s1 p = map_of fs p"
    using create_dir_all_map_of[OF s1, of ?tmp] create_dir_all_map_of[OF s1, of p]
      tnp not_prefix_butlast[OF p] by auto
  have w2: "write_file s1 ?tmp c t = Inr (AList.update ?tmp (File c t) s1)"
    using d1 m1 td by (simp add: write_file_def)
  have bt: "butlast p \<noteq> ?tmp" using tnp by auto
  show ?thesis
    using that[OF s1 w2] m1 tp d1 bt by (simp add: update_conv' is_dir_def)
qed

text \<open>C6. The write succeeds whenever nothing on the disk is in its way: no plain file
  stands where a directory above the target must be, and neither the target nor the
  temporary path is a directory.\<close>

theorem write_atomic_succeeds:
  assumes wf: "wf_fs fs" and p: "p \<noteq> []"
    and anc: "\<forall>q. strict_prefix q p \<longrightarrow> \<not> is_file fs q"
    and nd: "map_of fs p \<noteq> Some Dir"
    and td: "map_of fs (butlast p @ [tmp_file_name (last p) u]) \<noteq> Some Dir"
  shows "\<exists>fs'. write_atomic t u p c fs = (Inr (), fs')"
proof -
  let ?tmp = "butlast p @ [tmp_file_name (last p) u]"
  have tp: "?tmp \<noteq> p" using tmp_path_neq[OF p] by metis
  obtain s1 where s1: "create_dir_all fs (butlast p) = Inr s1"
    and w2: "write_file s1 ?tmp c t = Inr (AList.update ?tmp (File c t) s1)"
    and m2: "map_of (AList.update ?tmp (File c t) s1) p = map_of fs p"
      "map_of (AList.update ?tmp (File c t) s1) ?tmp = Some (File c t)"
      "is_dir (AList.update ?tmp (File c t) s1) (butlast p)"
    using write_atomic_prep[OF wf p anc td] by metis
  define s2 where "s2 = AList.update ?tmp (File c t) s1"
  define s3 where "s3 = (if fs_exists fs p then AList.delete p s2 else s2)"
  have r3: "fs_exists fs p \<Longrightarrow> remove_file s2 p = Inr s3"
    using m2 p nd by (auto simp: remove_file_def s3_def s2_def is_dir_def fs_exists_def)
  have m3: "map_of s3 ?tmp = Some (File c t)" "is_dir s3 (butlast p)"
    "map_of s3 p \<noteq> Some Dir"
    using m2 tp nd butlast_neq_self[OF p]
    by (auto simp: s3_def s2_def delete_conv' is_dir_def)
  have r4: "rename s3 ?tmp p = Inr (AList.update p (File c t) (AList.delete ?tmp s3))"
    using m3 p tp by (simp add: rename_def)
  have ex: "fs_exists s2 p = fs_exists fs p"
    using m2 by (simp add: fs_exists_def s2_def)
  show ?thesis
  proof (cases "fs_exists fs p")
    case True
    with s1 w2 r3 r4 ex p show ?thesis
      by (simp add: write_atomic_def Let_def res_simps s2_def)
  next
    case False
    then have "s3 = s2" by (simp add: s3_def)
    with False s1 w2 r4 ex p show ?thesis
      by (simp add: write_atomic_def Let_def res_simps s2_def)
  qed
qed

theorem write_atomic_succeeds_witness:
  "wf_fs demo_note_fs \<and> [''h'', ''a'', ''x.md''] \<noteq> [] \<and>
   map_of demo_note_fs [''h'', ''a'', ''x.md''] \<noteq> Some Dir \<and>
   map_of demo_note_fs [''h'', ''a'', ''.x.md.tmp-U''] \<noteq> Some Dir \<and>
   (\<exists>fs'. write_atomic 5 ''U'' [''h'', ''a'', ''x.md''] ''new'' demo_note_fs = (Inr (), fs'))"
proof -
  have h1: "wf_fs demo_note_fs" by (simp add: wf_fs_def is_dir_def)
  have h2: "[''h'', ''a'', ''x.md''] \<noteq> []" by simp
  have h3: "\<forall>q. strict_prefix q [''h'', ''a'', ''x.md''] \<longrightarrow> \<not> is_file demo_note_fs q"
  proof (intro allI impI)
    fix q assume "strict_prefix q [''h'', ''a'', ''x.md'']"
    then have "q \<in> {[], [''h''], [''h'', ''a'']}"
      by (auto simp: strict_prefix_def prefix_Cons)
    then show "\<not> is_file demo_note_fs q" by (auto simp: is_file_def)
  qed
  have h4: "map_of demo_note_fs [''h'', ''a'', ''x.md''] \<noteq> Some Dir" by simp
  have h5: "map_of demo_note_fs (butlast [''h'', ''a'', ''x.md''] @
      [tmp_file_name (last [''h'', ''a'', ''x.md'']) ''U'']) \<noteq> Some Dir"
    by (simp add: tmp_file_name_def)
  show ?thesis using write_atomic_succeeds[OF h1 h2 h3 h4 h5, of 5 "''new''"] h1 h4
    by (simp add: tmp_file_name_def)
qed

lemma write_atomic_dir_target:
  assumes wf: "wf_fs fs" and p: "p \<noteq> []" and dir: "map_of fs p = Some Dir"
    and td: "map_of fs (butlast p @ [tmp_file_name (last p) u]) \<noteq> Some Dir"
  shows "\<exists>fs'. write_atomic t u p c fs = (Inl (IoError ''Failed to replace'' EISDIR), fs') \<and>
           map_of fs' (butlast p @ [tmp_file_name (last p) u]) = Some (File c t)"
proof -
  let ?tmp = "butlast p @ [tmp_file_name (last p) u]"
  have anc: "\<forall>q. strict_prefix q p \<longrightarrow> \<not> is_file fs q"
    using wf_fs_ancestor[OF wf dir] wf_fs_root[OF wf] by (fastforce simp: is_dir_def is_file_def)
  obtain s1 where s1: "create_dir_all fs (butlast p) = Inr s1"
    and w2: "write_file s1 ?tmp c t = Inr (AList.update ?tmp (File c t) s1)"
    and m2: "map_of (AList.update ?tmp (File c t) s1) p = map_of fs p"
      "map_of (AList.update ?tmp (File c t) s1) ?tmp = Some (File c t)"
    using write_atomic_prep[OF wf p anc td] by metis
  have r3: "remove_file (AList.update ?tmp (File c t) s1) p = Inl EISDIR"
    using m2 dir by (simp add: remove_file_def is_dir_def)
  have ex: "fs_exists (AList.update ?tmp (File c t) s1) p"
    using m2 dir by (simp add: fs_exists_def)
  have "write_atomic t u p c fs =
          (Inl (IoError ''Failed to replace'' EISDIR), AList.update ?tmp (File c t) s1)"
    using s1 w2 r3 ex p by (simp add: write_atomic_def Let_def res_simps)
  with m2 show ?thesis by blast
qed

text \<open>C7. A failure after the temporary file is written leaves it on disk (spec, section 7):
  writing to a path that is a directory fails when the code tries to remove the target,
  and the temporary file with the new contents stays beside it.\<close>

theorem write_atomic_leaks_tmp:
  assumes wf: "wf_fs fs" and p: "p \<noteq> []" and dir: "map_of fs p = Some Dir"
    and td: "map_of fs (butlast p @ [tmp_file_name (last p) u]) \<noteq> Some Dir"
  shows "\<exists>fs'. write_atomic t u p c fs = (Inl (IoError ''Failed to replace'' EISDIR), fs') \<and>
           map_of fs' (butlast p @ [tmp_file_name (last p) u]) = Some (File c t)"
  using assms by (rule write_atomic_dir_target)

theorem write_atomic_leaks_tmp_witness:
  "wf_fs [([''h''], Dir), ([''h'', ''d''], Dir)] \<and> [''h'', ''d''] \<noteq> [] \<and>
   map_of [([''h''], Dir), ([''h'', ''d''], Dir)] [''h'', ''d''] = Some Dir \<and>
   map_of [([''h''], Dir), ([''h'', ''d''], Dir)] [''h'', ''.d.tmp-U''] \<noteq> Some Dir \<and>
   (\<exists>fs'. write_atomic 5 ''U'' [''h'', ''d''] ''new'' [([''h''], Dir), ([''h'', ''d''], Dir)] =
       (Inl (IoError ''Failed to replace'' EISDIR), fs') \<and>
     map_of fs' [''h'', ''.d.tmp-U''] = Some (File ''new'' 5))"
proof -
  have h1: "wf_fs [([''h''], Dir), ([''h'', ''d''], Dir)]" by (simp add: wf_fs_def is_dir_def)
  have h2: "[''h'', ''d''] \<noteq> []" by simp
  have h3: "map_of [([''h''], Dir), ([''h'', ''d''], Dir)] [''h'', ''d''] = Some Dir" by simp
  have h4: "map_of [([''h''], Dir), ([''h'', ''d''], Dir)]
      (butlast [''h'', ''d''] @ [tmp_file_name (last [''h'', ''d'']) ''U'']) \<noteq> Some Dir"
    by (simp add: tmp_file_name_def)
  show ?thesis using write_atomic_leaks_tmp[OF h1 h2 h3 h4, of 5 "''new''"] h1 h3
    by (simp add: tmp_file_name_def)
qed

subsection \<open>The frame of a write\<close>

lemma syscall_apply_wf: "wf_fs fs \<Longrightarrow> syscall_apply fs c = Inr fs' \<Longrightarrow> wf_fs fs'"
  by (cases c) (auto dest: wf_create_dir_all wf_write_file wf_remove_file wf_rename)

lemma syscall_apply_frame:
  assumes "wf_fs fs" "syscall_apply fs c = Inr fs'" "untouched c q"
  shows "map_of fs' q = map_of fs q"
proof (cases c)
  case (MkdirAll p)
  with assms create_dir_all_map_of[of fs p fs' q] show ?thesis by auto
next
  case (Rename src dst)
  with assms rename_frame[of fs src dst fs' q] show ?thesis by simp
qed (use assms map_of_write_file map_of_remove_file in auto)

lemma run_syscalls_frame:
  "wf_fs fs \<Longrightarrow> list_all (\<lambda>c. untouched c q) cs \<Longrightarrow> s \<in> set (run_syscalls fs cs) \<Longrightarrow>
   map_of s q = map_of fs q"
proof (induction cs arbitrary: fs)
  case (Cons c cs)
  show ?case
  proof (cases "syscall_apply fs c")
    case (Inr fs1)
    have "wf_fs fs1" using syscall_apply_wf[OF Cons.prems(1) Inr] .
    moreover have "map_of fs1 q = map_of fs q"
      using syscall_apply_frame[OF Cons.prems(1) Inr] Cons.prems(2) by simp
    ultimately show ?thesis using Cons Inr by auto
  qed (use Cons.prems in simp)
qed simp

text \<open>Whatever its outcome, a write changes nothing but the target, the temporary file
  beside it, and the directories above the target it creates.\<close>

lemma write_atomic_frame:
  assumes wf: "wf_fs fs" and p: "p \<noteq> []" and w: "write_atomic t u p c fs = (r, fs')"
    and q: "\<not> prefix q (butlast p)" "\<not> prefix p q" "\<not> prefix (butlast p @ [tmp_file_name (last p) u]) q"
  shows "map_of fs' q = map_of fs q"
proof -
  let ?cs = "write_atomic_calls t u p c (fs_exists fs p)"
  have "fs' = last (fs # run_syscalls fs ?cs)" using write_atomic_run[OF p w] by blast
  moreover have "list_all (\<lambda>c. untouched c q) ?cs"
    using q by (auto simp: write_atomic_calls_def Let_def)
  ultimately show ?thesis using run_syscalls_frame[OF wf] by (cases "run_syscalls fs ?cs") auto
qed

subsection \<open>The invariant\<close>

lemma keeps_wf_write_atomic [intro]: "keeps wf_fs (write_atomic t u p c)"
  unfolding write_atomic_def Let_def by (auto intro!: keeps_bindE)

lemma write_atomic_raises:
  "(\<And>m. P (InvalidPath m)) \<Longrightarrow> (\<And>m ie. P (IoError m ie)) \<Longrightarrow> raises P (write_atomic t u p c)"
  unfolding write_atomic_def Let_def by (intro raises_if raises_bindE raises_io raises_throwE) auto

end
