(* ===== verification/Json.thy ===== *)
theory Json
  imports Prelude
begin

text \<open>
  The JSON text the code writes with \<open>serde_json::to_string_pretty\<close>: the settings file
  (\<open>json!\<close> object of \<open>ensure_vault_structure\<close>) and the project sidecar (the
  \<open>ProjectMeta\<close> struct). Both are flat objects whose values are strings or a number,
  which is all this theory covers: strings escaped as \<open>serde_json\<close> does
  (\<open>"\<close>, backslash and the control characters), members one per line indented by two
  spaces. Multi-byte characters pass through unchanged, as bytes.
\<close>

datatype json_scalar = JStr string | JNum nat

definition hex_digit :: "nat \<Rightarrow> char" where
  "hex_digit n = (if n < 10 then char_of (48 + n) else char_of (87 + n))"

definition escape_char :: "char \<Rightarrow> string" where
  "escape_char c =
     (if c = CHR 0x22 then [CHR 0x5C, CHR 0x22]
      else if c = CHR 0x5C then [CHR 0x5C, CHR 0x5C]
      else if c = CHR 0x0A then [CHR 0x5C, CHR ''n'']
      else if c = CHR 0x0D then [CHR 0x5C, CHR ''r'']
      else if c = CHR 0x09 then [CHR 0x5C, CHR ''t'']
      else if c = CHR 0x08 then [CHR 0x5C, CHR ''b'']
      else if c = CHR 0x0C then [CHR 0x5C, CHR ''f'']
      else if of_char c < (32::nat)
      then [CHR 0x5C, CHR ''u'', CHR ''0'', CHR ''0'', hex_digit (of_char c div 16),
            hex_digit (of_char c mod 16)]
      else [c])"

definition json_string :: "string \<Rightarrow> string" where
  "json_string s = [CHR 0x22] @ concat (map escape_char s) @ [CHR 0x22]"

fun nat_to_string :: "nat \<Rightarrow> string" where
  "nat_to_string n =
     (if n < 10 then [char_of (48 + n)] else nat_to_string (n div 10) @ [char_of (48 + n mod 10)])"

fun scalar_to_string :: "json_scalar \<Rightarrow> string" where
  "scalar_to_string (JStr s) = json_string s"
| "scalar_to_string (JNum n) = nat_to_string n"

fun pretty_members :: "(string \<times> json_scalar) list \<Rightarrow> string" where
  "pretty_members [] = []"
| "pretty_members ((k, v) # ms) =
     [CHR 0x0A] @ ''  '' @ json_string k @ '': '' @ scalar_to_string v @
     (if ms = [] then [] else '','') @ pretty_members ms"

definition to_string_pretty :: "(string \<times> json_scalar) list \<Rightarrow> string" where
  "to_string_pretty ms = (if ms = [] then ''{}'' else ''{'' @ pretty_members ms @ [CHR 0x0A, CHR ''}''])"

end
