(* ===== verification/Bootstrap.thy ===== *)
theory Bootstrap
  imports AtomicWriter Json
begin

text \<open>
  The Vault Bootstrapper of \<open>vault.rs\<close>: \<open>ensure_vault_structure\<close> (lines 37--63) creates
  the seven fixed directories and, only when it is absent, writes the default
  \<open>config/settings.json\<close> through the Atomic Writer; \<open>vault_init\<close> (lines 110--118)
  resolves the root, ensures the structure and reports the root and the format version.
  Every public operation of the vault starts with the same two steps. The UUID of the
  settings file's temporary file is a parameter.
\<close>

definition VAULT_VERSION :: nat where
  "VAULT_VERSION = 1"

definition dirs_to_create :: "string list" where
  "dirs_to_create = [''notes/inbox'', ''notes/archive'', ''notes/folders'', ''notes/projects'',
     ''assets'', ''config'', ''.homebase'']"

text \<open>The loop over the directories, stopping at the first error (\<open>?\<close>).\<close>

fun create_dirs :: "path list \<Rightarrow> (fs, unit) res" where
  "create_dirs [] = returnE ()"
| "create_dirs (dir # dirs) =
     bindE (io ''Failed to create'' (\<lambda>fs. create_dir_all fs dir)) (\<lambda>_. create_dirs dirs)"

text \<open>\<open>to_string_lossy\<close> of an absolute path.\<close>

definition path_string :: "path \<Rightarrow> string" where
  "path_string p = ''/'' @ path_to_string p"

text \<open>The default settings. The members are listed in the order of the \<open>json!\<close>
  literal; \<open>serde_json\<close> without its \<open>preserve_order\<close> feature prints them sorted by key,
  which no property below depends on.\<close>

definition default_settings :: "path \<Rightarrow> string \<Rightarrow> string" where
  "default_settings vault_root now =
     to_string_pretty [(''version'', JNum VAULT_VERSION), (''vaultPath'', JStr (path_string vault_root)),
       (''createdAt'', JStr now)]"

definition settings_path :: "path \<Rightarrow> path" where
  "settings_path vault_root = join vault_root ''config/settings.json''"

definition ensure_vault_structure :: "sysenv \<Rightarrow> string \<Rightarrow> path \<Rightarrow> (fs, unit) res" where
  "ensure_vault_structure env u vault_root =
     bindE (create_dirs (map (join vault_root) dirs_to_create)) (\<lambda>_.
     bindE (getsE (\<lambda>fs. fs_exists fs (settings_path vault_root))) (\<lambda>exists.
       if \<not> exists
       then write_atomic (clock_ms env) u (settings_path vault_root)
              (default_settings vault_root (utc_now env))
       else returnE ()))"

record vault_info =
  vault_path :: string
  version :: nat

definition vault_init :: "sysenv \<Rightarrow> string \<Rightarrow> (fs, vault_info) res" where
  "vault_init env u =
     bindE (liftE (homebase_vault_root env)) (\<lambda>vault_root.
     bindE (ensure_vault_structure env u vault_root) (\<lambda>_.
     returnE \<lparr>vault_path = path_string vault_root, version = VAULT_VERSION\<rparr>))"

subsection \<open>Lemmas\<close>

lemma mkdirs_existing:
  "wf_fs fs \<Longrightarrow> is_dir fs (base @ cs) \<Longrightarrow> mkdirs fs base cs = Inr fs"
proof (induction cs arbitrary: base)
  case Nil
  then show ?case by simp
next
  case (Cons c cs)
  let ?q = "base @ [c]"
  have "is_dir fs ?q"
  proof (cases "cs = []")
    case True
    with Cons.prems show ?thesis by simp
  next
    case False
    have "strict_prefix ?q (base @ c # cs)" using False by (simp add: strict_prefix_def)
    moreover have "map_of fs (base @ c # cs) = Some Dir" using Cons.prems by (simp add: is_dir_def)
    ultimately show ?thesis using wf_fs_ancestor[OF Cons.prems(1)] by blast
  qed
  with Cons show ?case by simp
qed

lemma create_dir_all_existing: "wf_fs fs \<Longrightarrow> is_dir fs p \<Longrightarrow> create_dir_all fs p = Inr fs"
  using mkdirs_existing[of fs "[]" p] by (simp add: create_dir_all_def)

lemma create_dirs_existing:
  "wf_fs fs \<Longrightarrow> \<forall>d \<in> set ds. is_dir fs d \<Longrightarrow> create_dirs ds fs = (Inr (), fs)"
  by (induction ds) (simp_all add: res_simps create_dir_all_existing)

lemma create_dir_all_keeps_dir:
  "create_dir_all fs p = Inr fs' \<Longrightarrow> is_dir fs q \<Longrightarrow> is_dir fs' q"
  using create_dir_all_map_of[of fs p fs' q] by (auto simp: is_dir_def)

lemma create_dirs_effect:
  "create_dirs ds fs = (r, fs') \<Longrightarrow>
   (\<forall>q. map_of fs' q = map_of fs q \<or> (map_of fs q = None \<and> map_of fs' q = Some Dir)) \<and>
   (r = Inr () \<longrightarrow> wf_fs fs \<longrightarrow> wf_fs fs' \<and> (\<forall>d \<in> set ds. is_dir fs' d))"
proof (induction ds arbitrary: fs)
  case Nil
  then show ?case by (simp add: res_simps)
next
  case (Cons d ds)
  show ?case
  proof (cases "create_dir_all fs d")
    case (Inl e)
    with Cons.prems show ?thesis by (auto simp: res_simps)
  next
    case (Inr s1)
    with Cons.prems have rec: "create_dirs ds s1 = (r, fs')" by (simp add: res_simps)
    note IH = Cons.IH[OF rec]
    have m1: "map_of s1 q = map_of fs q \<or> (map_of fs q = None \<and> map_of s1 q = Some Dir)" for q
      using create_dir_all_map_of[OF Inr, of q] by auto
    have "map_of fs' q = map_of fs q \<or> (map_of fs q = None \<and> map_of fs' q = Some Dir)" for q
      using IH m1[of q] by (metis option.distinct(1))
    moreover have "wf_fs fs' \<and> (\<forall>d \<in> set (d # ds). is_dir fs' d)" if "r = Inr ()" "wf_fs fs"
    proof -
      from wf_create_dir_all[OF that(2) Inr] have "wf_fs s1" "is_dir s1 d" by auto
      with IH that have "wf_fs fs'" "\<forall>d \<in> set ds. is_dir fs' d" by auto
      moreover have "map_of fs' d = map_of s1 d \<or> (map_of s1 d = None \<and> map_of fs' d = Some Dir)"
        using IH by blast
      then have "is_dir fs' d" using \<open>is_dir s1 d\<close> by (auto simp: is_dir_def)
      ultimately show ?thesis by simp
    qed
    ultimately show ?thesis by blast
  qed
qed


lemma settings_path_eq: "settings_path root = root @ [''config'', ''settings.json'']"
  by (simp add: settings_path_def join_def is_absolute_def path_components_def)

lemma skeleton_paths:
  "map (join root) dirs_to_create =
     [root @ [''notes'', ''inbox''], root @ [''notes'', ''archive''], root @ [''notes'', ''folders''],
      root @ [''notes'', ''projects''], root @ [''assets''], root @ [''config''], root @ [''.homebase'']]"
  by (simp add: dirs_to_create_def join_def is_absolute_def path_components_def)

lemma skeleton_apart_from_settings:
  "d \<in> set (map (join root) dirs_to_create) \<Longrightarrow>
   d \<noteq> settings_path root \<and> d \<noteq> butlast (settings_path root) @ [tmp_file_name (last (settings_path root)) u]"
  by (auto simp: skeleton_paths settings_path_eq tmp_file_name_def)

lemma write_atomic_keeps_dir:
  assumes "p \<noteq> []" "write_atomic t u p c fs = (Inr (), fs')" "is_dir fs q"
    "q \<noteq> p" "q \<noteq> butlast p @ [tmp_file_name (last p) u]"
  shows "is_dir fs' q"
  using write_atomic_Inr_effect[OF assms(1,2)] assms(3-5) by (fastforce simp: is_dir_def)

lemma keeps_wf_create_dirs [intro]: "keeps wf_fs (create_dirs ds)"
  by (induction ds) auto

lemma keeps_wf_ensure_vault_structure [intro]: "keeps wf_fs (ensure_vault_structure env u root)"
  unfolding ensure_vault_structure_def by blast

lemma create_dirs_raises: "(\<And>m ie. P (IoError m ie)) \<Longrightarrow> raises P (create_dirs ds)"
  by (induction ds) auto

lemma ensure_vault_structure_raises:
  "(\<And>m. P (InvalidPath m)) \<Longrightarrow> (\<And>m ie. P (IoError m ie)) \<Longrightarrow>
   raises P (ensure_vault_structure env u root)"
  unfolding ensure_vault_structure_def
  by (intro raises_bindE raises_if create_dirs_raises write_atomic_raises raises_getsE raises_returnE) auto

lemma create_dirs_frame:
  "create_dirs ds fs = (r, fs') \<Longrightarrow> (\<forall>d \<in> set ds. \<not> prefix q d) \<Longrightarrow> map_of fs' q = map_of fs q"
proof (induction ds arbitrary: fs)
  case (Cons d ds)
  show ?case
  proof (cases "create_dir_all fs d")
    case (Inl e)
    with Cons.prems show ?thesis by (simp add: res_simps)
  next
    case (Inr fs1)
    have "map_of fs1 q = map_of fs q" using create_dir_all_map_of[OF Inr, of q] Cons.prems(2) by auto
    moreover have "create_dirs ds fs1 = (r, fs')" using Cons.prems(1) Inr by (simp add: res_simps)
    ultimately show ?thesis using Cons.IH Cons.prems(2) by simp
  qed
qed (simp add: res_simps)

lemma ensure_vault_structure_cases:
  assumes "ensure_vault_structure env u root fs = (r, fs')"
  obtains (dirs_failed) e where "create_dirs (map (join root) dirs_to_create) fs = (Inl e, fs')" "r = Inl e"
  | (present) "create_dirs (map (join root) dirs_to_create) fs = (Inr (), fs')"
      "fs_exists fs' (settings_path root)" "r = Inr ()"
  | (written) s1 where "create_dirs (map (join root) dirs_to_create) fs = (Inr (), s1)"
      "\<not> fs_exists s1 (settings_path root)"
      "write_atomic (clock_ms env) u (settings_path root) (default_settings root (utc_now env)) s1 = (r, fs')"
  using assms
  by (cases "create_dirs (map (join root) dirs_to_create) fs")
     (auto simp: ensure_vault_structure_def res_simps split: sum.splits if_splits)

text \<open>C8. Bootstrapping is idempotent (spec 4.3, 8): once \<open>ensure_vault_structure\<close> has
  succeeded, calling it again, at any other time and with any other UUID, succeeds and
  leaves the disk exactly as it is.\<close>

theorem ensure_vault_structure_idempotent:
  assumes wf: "wf_fs fs" and e: "ensure_vault_structure env u root fs = (Inr (), fs1)"
  shows "ensure_vault_structure env' u' root fs1 = (Inr (), fs1)"
proof -
  let ?ds = "map (join root) dirs_to_create"
  have second: "ensure_vault_structure env' u' root fs1 = (Inr (), fs1)"
    if "wf_fs fs1" "\<forall>d \<in> set ?ds. is_dir fs1 d" "fs_exists fs1 (settings_path root)"
    using create_dirs_existing[OF that(1,2)] that(3)
    by (simp add: ensure_vault_structure_def res_simps)
  from e show ?thesis
  proof (cases rule: ensure_vault_structure_cases)
    case present
    with create_dirs_effect[OF present(1)] wf show ?thesis by (intro second) auto
  next
    case (written s1)
    from create_dirs_effect[OF written(1)] wf
    have wf1: "wf_fs s1" and d1: "\<forall>d \<in> set ?ds. is_dir s1 d" by auto
    have sp: "settings_path root \<noteq> []" by (simp add: settings_path_eq)
    have w: "write_atomic (clock_ms env) u (settings_path root) (default_settings root (utc_now env)) s1
               = (Inr (), fs1)"
      using written(3) by simp
    have "wf_fs fs1" using keepsD[OF keeps_wf_write_atomic wf1 w] .
    moreover have "\<forall>d \<in> set ?ds. is_dir fs1 d"
      using d1 skeleton_apart_from_settings write_atomic_keeps_dir[OF sp w] by blast
    moreover have "fs_exists fs1 (settings_path root)"
      using write_atomic_Inr_effect[OF sp w] by (simp add: fs_exists_def)
    ultimately show ?thesis by (rule second)
  qed simp
qed

theorem ensure_vault_structure_idempotent_witness:
  "wf_fs [([''home''], Dir), ([''home'', ''u''], Dir)] \<and>
   fst (ensure_vault_structure demo_env ''U'' [''home'', ''u'', ''Homebase'']
          [([''home''], Dir), ([''home'', ''u''], Dir)]) = Inr () \<and>
   ensure_vault_structure (demo_env\<lparr>clock_ms := 2000\<rparr>) ''V'' [''home'', ''u'', ''Homebase'']
     (snd (ensure_vault_structure demo_env ''U'' [''home'', ''u'', ''Homebase'']
             [([''home''], Dir), ([''home'', ''u''], Dir)])) =
   (Inr (), snd (ensure_vault_structure demo_env ''U'' [''home'', ''u'', ''Homebase'']
                  [([''home''], Dir), ([''home'', ''u''], Dir)]))"
proof -
  have h1: "wf_fs [([''home''], Dir), ([''home'', ''u''], Dir)]" by (simp add: wf_fs_def is_dir_def)
  have h2: "ensure_vault_structure demo_env ''U'' [''home'', ''u'', ''Homebase'']
              [([''home''], Dir), ([''home'', ''u''], Dir)] =
            (Inr (), snd (ensure_vault_structure demo_env ''U'' [''home'', ''u'', ''Homebase'']
              [([''home''], Dir), ([''home'', ''u''], Dir)]))"
    by code_simp
  from ensure_vault_structure_idempotent[OF h1 h2] h1 h2 show ?thesis
    by (metis fst_conv)
qed

text \<open>C9. An existing settings file is never overwritten (spec 4.3): whatever happens
  during \<open>ensure_vault_structure\<close>, on success or failure, the file keeps its contents and
  its modification time.\<close>

theorem ensure_keeps_settings:
  assumes s: "map_of fs (settings_path root) = Some (File c t)"
    and e: "ensure_vault_structure env u root fs = (r, fs')"
  shows "map_of fs' (settings_path root) = Some (File c t)"
proof -
  obtain r1 s1 where c: "create_dirs (map (join root) dirs_to_create) fs = (r1, s1)" by fastforce
  have "map_of s1 (settings_path root) = Some (File c t)"
    using create_dirs_effect[OF c] s by (metis option.distinct(1))
  then show ?thesis
    using e c by (auto simp: ensure_vault_structure_def res_simps fs_exists_def split: sum.splits)
qed

theorem ensure_keeps_settings_witness:
  "map_of [([''home''], Dir), ([''home'', ''u''], Dir), ([''home'', ''u'', ''Homebase''], Dir),
      ([''home'', ''u'', ''Homebase'', ''config''], Dir),
      ([''home'', ''u'', ''Homebase'', ''config'', ''settings.json''], File ''{}'' 7)]
     (settings_path [''home'', ''u'', ''Homebase'']) = Some (File ''{}'' 7) \<and>
   map_of (snd (ensure_vault_structure demo_env ''U'' [''home'', ''u'', ''Homebase'']
      [([''home''], Dir), ([''home'', ''u''], Dir), ([''home'', ''u'', ''Homebase''], Dir),
       ([''home'', ''u'', ''Homebase'', ''config''], Dir),
       ([''home'', ''u'', ''Homebase'', ''config'', ''settings.json''], File ''{}'' 7)]))
     (settings_path [''home'', ''u'', ''Homebase'']) = Some (File ''{}'' 7)"
proof -
  have h1: "map_of [([''home''], Dir), ([''home'', ''u''], Dir), ([''home'', ''u'', ''Homebase''], Dir),
      ([''home'', ''u'', ''Homebase'', ''config''], Dir),
      ([''home'', ''u'', ''Homebase'', ''config'', ''settings.json''], File ''{}'' 7)]
     (settings_path [''home'', ''u'', ''Homebase'']) = Some (File ''{}'' 7)"
    by (simp add: settings_path_eq)
  show ?thesis using ensure_keeps_settings[OF h1 prod.collapse[symmetric]] h1 by simp
qed

lemma ensure_vault_structure_frame:
  assumes wf: "wf_fs fs" and e: "ensure_vault_structure env u root fs = (r, fs')"
    and q: "\<forall>d \<in> set (map (join root) dirs_to_create). \<not> prefix q d"
      "\<not> prefix q (root @ [''config''])" "\<not> prefix (root @ [''config'']) q"
  shows "map_of fs' q = map_of fs q"
  using e
proof (cases rule: ensure_vault_structure_cases)
  case (dirs_failed e)
  with create_dirs_frame q(1) show ?thesis by blast
next
  case present
  with create_dirs_frame q(1) show ?thesis by blast
next
  case (written s1)
  have m1: "map_of s1 q = map_of fs q" using create_dirs_frame[OF written(1) q(1)] .
  have wf1: "wf_fs s1" using create_dirs_effect[OF written(1)] wf by blast
  have sp: "settings_path root \<noteq> []" and bl: "butlast (settings_path root) = root @ [''config'']"
    by (simp_all add: settings_path_eq butlast_append)
  have "map_of fs' q = map_of s1 q"
  proof (rule write_atomic_frame[OF wf1 sp written(3)])
    show "\<not> prefix q (butlast (settings_path root))" using q(2) bl by simp
    show "\<not> prefix (settings_path root) q"
      using q(3) by (metis bl append_butlast_last_id prefix_order.trans prefixI sp)
    show "\<not> prefix (butlast (settings_path root) @ [tmp_file_name (last (settings_path root)) u]) q"
      using q(3) bl by (metis append.assoc prefix_order.trans prefixI)
  qed
  with m1 show ?thesis by simp
qed

end
