(* ===== verification/Notes.thy ===== *)
theory Notes
  imports Bootstrap "HOL-Library.Word"
begin

text \<open>
  The reading half of the Note Lifecycle Manager of \<open>vault.rs\<close>: the kind of a note by its
  path prefix (\<open>kind_from_relative_path\<close>, lines 129--143), the listing of the notes under
  \<open>notes/\<close> (\<open>vault_list_notes\<close>, lines 146--188), and the direct read and atomic write of a
  note (\<open>vault_read_note\<close>, \<open>vault_write_note\<close>, lines 191--200). The walk of
  \<open>WalkDir::new(notes_root)\<close> is the list of entries below \<open>notes\<close> in enumeration order
  (the walk's own first item, \<open>notes\<close> itself, is a directory and is skipped by the code);
  the loop over it is \<open>collect_notes\<close>, and the final \<open>sort_by\<close> is the stable
  \<open>sort_key\<close> of the library on the negated modification time. The cast
  \<open>as_millis() as i64\<close> is kept at its width: the millisecond count is truncated to a
  64-bit word and read as signed.
\<close>

definition kind_from_relative_path :: "string \<Rightarrow> string" where
  "kind_from_relative_path rel =
     (if starts_with rel ''notes/inbox/'' then ''inbox''
      else if starts_with rel ''notes/archive/'' then ''archive''
      else if starts_with rel ''notes/projects/'' then ''project''
      else if starts_with rel ''notes/folders/'' then ''folder''
      else ''other'')"

text \<open>\<open>Path::extension\<close> of a file name: the part after the last dot, unless the name has no
  dot, or its only dot is the first character, or it is \<open>..\<close>.\<close>

definition extension :: "string \<Rightarrow> string option" where
  "extension name =
     (if name = ''..'' \<or> CHR ''.'' \<notin> set name then None
      else
        let before_dot = rev (tl (dropWhile (\<lambda>c. c \<noteq> CHR ''.'') (rev name)));
            after_dot = rev (takeWhile (\<lambda>c. c \<noteq> CHR ''.'') (rev name))
        in if before_dot = [] then None else Some after_dot)"

record vault_note_entry =
  entry_relative_path :: string
  entry_kind :: string
  entry_mtime_ms :: int
  entry_size :: nat

text \<open>\<open>modified.duration_since(UNIX_EPOCH).as_millis() as i64\<close>.\<close>

definition mtime_i64 :: "nat \<Rightarrow> int" where
  "mtime_i64 t = sint (of_nat t :: 64 word)"

text \<open>The body of the loop over the walk: directories and files without the \<open>md\<close>
  extension are skipped, the relative path is computed (its error propagates), archived
  notes are skipped unless asked for, and an entry is pushed.\<close>

fun collect_notes :: "sysenv \<Rightarrow> bool \<Rightarrow> (path \<times> node) list \<Rightarrow> vault_error + vault_note_entry list" where
  "collect_notes env include_archived [] = Inr []"
| "collect_notes env include_archived ((p, Dir) # es) = collect_notes env include_archived es"
| "collect_notes env include_archived ((p, File c t) # es) =
     (if p = [] \<or> extension (last p) \<noteq> Some ''md'' then collect_notes env include_archived es
      else case relative_from_vault_root env p of
        Inl e \<Rightarrow> Inl e
      | Inr rel \<Rightarrow>
          if \<not> include_archived \<and> starts_with rel ''notes/archive/''
          then collect_notes env include_archived es
          else case collect_notes env include_archived es of
            Inl e \<Rightarrow> Inl e
          | Inr entries \<Rightarrow>
              Inr (\<lparr>entry_relative_path = rel, entry_kind = kind_from_relative_path rel,
                    entry_mtime_ms = mtime_i64 t, entry_size = length c\<rparr> # entries))"

definition sort_by_mtime_desc :: "vault_note_entry list \<Rightarrow> vault_note_entry list" where
  "sort_by_mtime_desc entries = sort_key (\<lambda>e. - entry_mtime_ms e) entries"

definition vault_list_notes :: "sysenv \<Rightarrow> string \<Rightarrow> bool \<Rightarrow> (fs, vault_note_entry list) res" where
  "vault_list_notes env u include_archived =
     bindE (liftE (homebase_vault_root env)) (\<lambda>vault_root.
     bindE (ensure_vault_structure env u vault_root) (\<lambda>_.
     bindE (getsE (\<lambda>fs. collect_notes env include_archived (descendants fs (join vault_root ''notes''))))
       (\<lambda>r. bindE (liftE r) (\<lambda>entries. returnE (sort_by_mtime_desc entries)))))"

definition vault_read_note :: "sysenv \<Rightarrow> string \<Rightarrow> (fs, string) res" where
  "vault_read_note env relative_path =
     bindE (liftE (resolve_vault_path env relative_path)) (\<lambda>full.
     bindE (getsE (\<lambda>fs. read_to_string fs full)) (\<lambda>r.
       case r of Inl e \<Rightarrow> throwE (IoError ''Failed to read'' e) | Inr s \<Rightarrow> returnE s))"

definition vault_write_note :: "sysenv \<Rightarrow> string \<Rightarrow> string \<Rightarrow> string \<Rightarrow> (fs, unit) res" where
  "vault_write_note env u relative_path contents =
     bindE (liftE (resolve_vault_path env relative_path)) (\<lambda>full.
       write_atomic (clock_ms env) u full contents)"

text \<open>A vault of the demo environment with its skeleton, its settings and three
  files below \<open>notes\<close>: an inbox note, an archived note, and a text file.\<close>

abbreviation demo_vault_fs :: fs where
  "demo_vault_fs \<equiv>
     [([''home''], Dir), ([''home'', ''u''], Dir), ([''home'', ''u'', ''Homebase''], Dir),
      ([''home'', ''u'', ''Homebase'', ''notes''], Dir),
      ([''home'', ''u'', ''Homebase'', ''notes'', ''inbox''], Dir),
      ([''home'', ''u'', ''Homebase'', ''notes'', ''archive''], Dir),
      ([''home'', ''u'', ''Homebase'', ''notes'', ''folders''], Dir),
      ([''home'', ''u'', ''Homebase'', ''notes'', ''projects''], Dir),
      ([''home'', ''u'', ''Homebase'', ''assets''], Dir),
      ([''home'', ''u'', ''Homebase'', ''config''], Dir),
      ([''home'', ''u'', ''Homebase'', ''.homebase''], Dir),
      ([''home'', ''u'', ''Homebase'', ''config'', ''settings.json''], File ''{}'' 1),
      ([''home'', ''u'', ''Homebase'', ''notes'', ''inbox'', ''a.md''], File ''A'' 5),
      ([''home'', ''u'', ''Homebase'', ''notes'', ''archive'', ''b.md''], File ''BB'' 9),
      ([''home'', ''u'', ''Homebase'', ''notes'', ''inbox'', ''c.txt''], File [] 7)]"

subsection \<open>The loop over the walk\<close>

lemma collect_notes_mem:
  "collect_notes env incl walk = Inr es \<Longrightarrow>
   e \<in> set es \<longleftrightarrow>
   (\<exists>p c t rel. (p, File c t) \<in> set walk \<and> p \<noteq> [] \<and> extension (last p) = Some ''md'' \<and>
      relative_from_vault_root env p = Inr rel \<and> (incl \<or> \<not> starts_with rel ''notes/archive/'') \<and>
      e = \<lparr>entry_relative_path = rel, entry_kind = kind_from_relative_path rel,
           entry_mtime_ms = mtime_i64 t, entry_size = length c\<rparr>)"
proof (induction env incl walk arbitrary: es rule: collect_notes.induct)
  case (1 env incl)
  then show ?case by simp
next
  case (2 env incl p es' es)
  then show ?case by auto
next
  case (3 env incl p c t es' es)
  show ?case
  proof (cases "p = [] \<or> extension (last p) \<noteq> Some ''md''")
    case True
    with 3 show ?thesis by auto
  next
    case False
    then obtain rel where rel: "relative_from_vault_root env p = Inr rel"
      using "3.prems" by (auto split: sum.splits)
    show ?thesis
    proof (cases "\<not> incl \<and> starts_with rel ''notes/archive/''")
      case True
      with False rel 3 show ?thesis by auto
    next
      case skip: False
      with False rel "3.prems" obtain es0 where es0: "collect_notes env incl es' = Inr es0"
        by (auto split: sum.splits)
      with False rel skip "3.prems" have "es = \<lparr>entry_relative_path = rel,
          entry_kind = kind_from_relative_path rel, entry_mtime_ms = mtime_i64 t,
          entry_size = length c\<rparr> # es0" by auto
      with "3.IH"(3)[OF _ rel skip es0] False rel skip show ?thesis by auto
    qed
  qed
qed

lemma collect_notes_ok:
  assumes "homebase_vault_root env = Inr root" "\<forall>(p, n) \<in> set walk. prefix root p"
  shows "\<exists>es. collect_notes env incl walk = Inr es"
  using assms(2)
proof (induction walk)
  case Nil
  then show ?case by simp
next
  case (Cons x walk)
  obtain p n where x: "x = (p, n)" by fastforce
  from Cons obtain es where es: "collect_notes env incl walk = Inr es" by auto
  from Cons.prems x obtain r where "p = root @ r" by (auto simp: prefix_def)
  with assms(1) have rel: "relative_from_vault_root env p = Inr (path_to_forward_slashes (path_to_string r))"
    by (simp add: relative_from_vault_root_append)
  show ?case using x es rel by (cases n) auto
qed

subsection \<open>The listing\<close>

lemma join_notes: "join root ''notes'' = root @ [''notes'']"
  by (simp add: join_def is_absolute_def path_components_def)

lemma vault_list_notes_Inr:
  "vault_list_notes env u incl fs = (Inr es, fs') \<longleftrightarrow>
   (\<exists>root es0. homebase_vault_root env = Inr root \<and> ensure_vault_structure env u root fs = (Inr (), fs') \<and>
      collect_notes env incl (descendants fs' (root @ [''notes''])) = Inr es0 \<and>
      es = sort_by_mtime_desc es0)"
  by (auto simp: vault_list_notes_def res_simps join_notes split: sum.splits prod.splits)

lemma set_sort_by_mtime_desc [simp]: "set (sort_by_mtime_desc es) = set es"
  by (simp add: sort_by_mtime_desc_def)

lemma mem_descendants:
  "distinct (map fst fs) \<Longrightarrow>
   (p, n) \<in> set (descendants fs q) \<longleftrightarrow> map_of fs p = Some n \<and> strict_prefix q p"
  by (auto simp: descendants_def map_of_is_SomeI dest: map_of_SomeD)

lemma strict_prefix_Cons_iff:
  "strict_prefix (root @ [x]) p \<longleftrightarrow> (\<exists>r. r \<noteq> [] \<and> p = root @ x # r)"
  by (auto simp: strict_prefix_def prefix_def)

text \<open>Which notes the listing holds: one entry for each plain file below \<open>notes\<close> whose
  name has the extension \<open>md\<close>, unless it is archived and the archive is not asked for.\<close>

lemma vault_list_notes_mem:
  assumes wf: "wf_fs fs" and run: "vault_list_notes env u incl fs = (Inr es, fs')"
    and root: "homebase_vault_root env = Inr root"
  shows "e \<in> set es \<longleftrightarrow>
    (\<exists>r c t. map_of fs' (root @ ''notes'' # r) = Some (File c t) \<and> r \<noteq> [] \<and>
       extension (last r) = Some ''md'' \<and>
       (incl \<or> \<not> starts_with (path_to_forward_slashes (path_to_string (''notes'' # r))) ''notes/archive/'') \<and>
       e = \<lparr>entry_relative_path = path_to_forward_slashes (path_to_string (''notes'' # r)),
            entry_kind = kind_from_relative_path (path_to_forward_slashes (path_to_string (''notes'' # r))),
            entry_mtime_ms = mtime_i64 t, entry_size = length c\<rparr>)"
proof -
  obtain es0 where ens: "ensure_vault_structure env u root fs = (Inr (), fs')"
    and col: "collect_notes env incl (descendants fs' (root @ [''notes''])) = Inr es0"
    and es: "es = sort_by_mtime_desc es0"
    using run root by (auto simp: vault_list_notes_Inr)
  have "wf_fs fs'" using keepsD[OF keeps_wf_ensure_vault_structure wf ens] .
  then have d: "distinct (map fst fs')" by (simp add: wf_fs_def)
  have rel: "\<And>r. relative_from_vault_root env (root @ ''notes'' # r) =
      Inr (path_to_forward_slashes (path_to_string (''notes'' # r)))"
    using relative_from_vault_root_append[OF root] by simp
  show ?thesis
    unfolding es set_sort_by_mtime_desc collect_notes_mem[OF col] mem_descendants[OF d]
      strict_prefix_Cons_iff
  proof
    assume "\<exists>p c t rel'. (map_of fs' p = Some (File c t) \<and> (\<exists>r. r \<noteq> [] \<and> p = root @ ''notes'' # r)) \<and>
      p \<noteq> [] \<and> extension (last p) = Some ''md'' \<and> relative_from_vault_root env p = Inr rel' \<and>
      (incl \<or> \<not> starts_with rel' ''notes/archive/'') \<and>
      e = \<lparr>entry_relative_path = rel', entry_kind = kind_from_relative_path rel',
           entry_mtime_ms = mtime_i64 t, entry_size = length c\<rparr>"
    then show "\<exists>r c t. map_of fs' (root @ ''notes'' # r) = Some (File c t) \<and> r \<noteq> [] \<and>
       extension (last r) = Some ''md'' \<and>
       (incl \<or> \<not> starts_with (path_to_forward_slashes (path_to_string (''notes'' # r))) ''notes/archive/'') \<and>
       e = \<lparr>entry_relative_path = path_to_forward_slashes (path_to_string (''notes'' # r)),
            entry_kind = kind_from_relative_path (path_to_forward_slashes (path_to_string (''notes'' # r))),
            entry_mtime_ms = mtime_i64 t, entry_size = length c\<rparr>"
      using rel by fastforce
  next
    assume "\<exists>r c t. map_of fs' (root @ ''notes'' # r) = Some (File c t) \<and> r \<noteq> [] \<and>
       extension (last r) = Some ''md'' \<and>
       (incl \<or> \<not> starts_with (path_to_forward_slashes (path_to_string (''notes'' # r))) ''notes/archive/'') \<and>
       e = \<lparr>entry_relative_path = path_to_forward_slashes (path_to_string (''notes'' # r)),
            entry_kind = kind_from_relative_path (path_to_forward_slashes (path_to_string (''notes'' # r))),
            entry_mtime_ms = mtime_i64 t, entry_size = length c\<rparr>"
    then show "\<exists>p c t rel'. (map_of fs' p = Some (File c t) \<and> (\<exists>r. r \<noteq> [] \<and> p = root @ ''notes'' # r)) \<and>
      p \<noteq> [] \<and> extension (last p) = Some ''md'' \<and> relative_from_vault_root env p = Inr rel' \<and>
      (incl \<or> \<not> starts_with rel' ''notes/archive/'') \<and>
      e = \<lparr>entry_relative_path = rel', entry_kind = kind_from_relative_path rel',
           entry_mtime_ms = mtime_i64 t, entry_size = length c\<rparr>"
      using rel by fastforce
  qed
qed

lemma sint_of_nat_small:
  assumes "t < 2 ^ 63"
  shows "sint (of_nat t :: 64 word) = int t"
proof -
  have "sint (of_nat t :: 64 word) = sint (word_of_int (int t) :: 64 word)" by simp
  also have "\<dots> = (int t + 2 ^ 63) mod 2 ^ 64 - 2 ^ 63"
    by (simp only: int_word_sint) simp
  also have "\<dots> = int t" using assms by (simp add: mod_pos_pos_trivial)
  finally show ?thesis .
qed

lemma demo_vault_fs_wf: "wf_fs demo_vault_fs"
  by (simp add: wf_fs_def fs_eval)

lemma demo_vault_root: "homebase_vault_root demo_env = Inr [''home'', ''u'', ''Homebase'']"
  by (simp add: homebase_vault_root_def)

lemma demo_list_notes:
  "vault_list_notes demo_env ''s'' True demo_vault_fs =
     (Inr [\<lparr>entry_relative_path = ''notes/archive/b.md'', entry_kind = ''archive'',
             entry_mtime_ms = 9, entry_size = 2\<rparr>,
           \<lparr>entry_relative_path = ''notes/inbox/a.md'', entry_kind = ''inbox'',
             entry_mtime_ms = 5, entry_size = 1\<rparr>], demo_vault_fs)"
  "vault_list_notes demo_env ''s'' False demo_vault_fs =
     (Inr [\<lparr>entry_relative_path = ''notes/inbox/a.md'', entry_kind = ''inbox'',
             entry_mtime_ms = 5, entry_size = 1\<rparr>], demo_vault_fs)"
  by code_simp+

subsection \<open>Properties of the listing\<close>

text \<open>C12: the listing is ordered by modification time, most recent first (spec 4.4, 8).
  Notes with equal times keep the order of the walk, since the sort is stable; the spec's
  "strictly" descending holds only when the times differ.\<close>

theorem list_notes_sorted:
  assumes "vault_list_notes env u incl fs = (Inr es, fs')"
  shows "sorted_wrt (\<lambda>a b. entry_mtime_ms b \<le> entry_mtime_ms a) es"
proof -
  obtain es0 where "es = sort_by_mtime_desc es0"
    using assms by (auto simp: vault_list_notes_Inr)
  moreover have "sorted (map (\<lambda>e. - entry_mtime_ms e) (sort_key (\<lambda>e. - entry_mtime_ms e) es0))"
    by (rule sorted_sort_key)
  ultimately show ?thesis by (simp add: sort_by_mtime_desc_def sorted_map)
qed

theorem list_notes_sorted_witness:
  "vault_list_notes demo_env ''s'' True demo_vault_fs =
     (Inr [\<lparr>entry_relative_path = ''notes/archive/b.md'', entry_kind = ''archive'',
             entry_mtime_ms = 9, entry_size = 2\<rparr>,
           \<lparr>entry_relative_path = ''notes/inbox/a.md'', entry_kind = ''inbox'',
             entry_mtime_ms = 5, entry_size = 1\<rparr>], demo_vault_fs) \<and>
   sorted_wrt (\<lambda>a b. entry_mtime_ms b \<le> entry_mtime_ms a)
     [\<lparr>entry_relative_path = ''notes/archive/b.md'', entry_kind = ''archive'',
        entry_mtime_ms = 9, entry_size = 2\<rparr>,
      \<lparr>entry_relative_path = ''notes/inbox/a.md'', entry_kind = ''inbox'',
        entry_mtime_ms = 5, entry_size = 1\<rparr>]"
  using list_notes_sorted[OF demo_list_notes(1)] demo_list_notes(1) by simp



text \<open>C14: \<open>list_notes(false)\<close> holds exactly the entries of the \<open>md\<close> files below
  \<open>notes\<close> whose relative path is not under \<open>notes/archive/\<close> (spec 4.4, 8).\<close>

theorem list_notes_without_archive:
  assumes "wf_fs fs" "vault_list_notes env u False fs = (Inr es, fs')"
    "homebase_vault_root env = Inr root"
  shows "e \<in> set es \<longleftrightarrow>
    (\<exists>r c t. map_of fs' (root @ ''notes'' # r) = Some (File c t) \<and> r \<noteq> [] \<and>
       extension (last r) = Some ''md'' \<and>
       \<not> starts_with (path_to_forward_slashes (path_to_string (''notes'' # r))) ''notes/archive/'' \<and>
       e = \<lparr>entry_relative_path = path_to_forward_slashes (path_to_string (''notes'' # r)),
            entry_kind = kind_from_relative_path (path_to_forward_slashes (path_to_string (''notes'' # r))),
            entry_mtime_ms = mtime_i64 t, entry_size = length c\<rparr>)"
  using vault_list_notes_mem[OF assms] by simp

theorem list_notes_without_archive_witness:
  "\<lparr>entry_relative_path = ''notes/archive/b.md'', entry_kind = ''archive'',
     entry_mtime_ms = 9, entry_size = 2\<rparr> \<notin>
   set [\<lparr>entry_relative_path = ''notes/inbox/a.md'', entry_kind = ''inbox'',
          entry_mtime_ms = 5, entry_size = 1\<rparr>] \<and>
   \<not> (\<exists>r c t. map_of demo_vault_fs ([''home'', ''u'', ''Homebase''] @ ''notes'' # r) = Some (File c t) \<and>
      r \<noteq> [] \<and> extension (last r) = Some ''md'' \<and>
      \<not> starts_with (path_to_forward_slashes (path_to_string (''notes'' # r))) ''notes/archive/'' \<and>
      \<lparr>entry_relative_path = ''notes/archive/b.md'', entry_kind = ''archive'',
        entry_mtime_ms = 9, entry_size = 2\<rparr> =
      \<lparr>entry_relative_path = path_to_forward_slashes (path_to_string (''notes'' # r)),
       entry_kind = kind_from_relative_path (path_to_forward_slashes (path_to_string (''notes'' # r))),
       entry_mtime_ms = mtime_i64 t, entry_size = length c\<rparr>)"
  using list_notes_without_archive[OF demo_vault_fs_wf demo_list_notes(2) demo_vault_root,
      of "\<lparr>entry_relative_path = ''notes/archive/b.md'', entry_kind = ''archive'',
            entry_mtime_ms = 9, entry_size = 2\<rparr>"]
  by simp



lemma mtime_i64_wraps: "mtime_i64 (2 ^ 63) = - (2 ^ 63)"
  by (simp add: mtime_i64_def int_word_sint)

subsection \<open>Reading and writing a note\<close>

lemma prefix_append_root:
  "prefix q (root @ x) \<Longrightarrow> \<not> prefix q root \<Longrightarrow> prefix root q"
  by (auto simp: prefix_append)



text \<open>C17: a relative path with no component (\<open>""\<close>, \<open>"."\<close>, \<open>"./"\<close>) passes the
  validation and resolves to the vault root itself. Writing a note there fails, since the
  root is a directory, but only after the temporary file \<open>.Homebase.tmp-<uuid>\<close> holding
  the contents has been written beside the root, in the home directory, outside the
  vault; it stays there.\<close>

theorem write_note_root_escapes:
  assumes wf: "wf_fs fs" and h: "home_dir env = Some h"
    and rel: "\<not> is_absolute rel" "path_components rel = []"
    and d: "map_of fs (h @ [''Homebase'']) = Some Dir"
    and td: "map_of fs (h @ [''.Homebase.tmp-'' @ u]) \<noteq> Some Dir"
  shows "\<exists>fs'. vault_write_note env u rel c fs = (Inl (IoError ''Failed to replace'' EISDIR), fs') \<and>
           map_of fs' (h @ [''.Homebase.tmp-'' @ u]) = Some (File c (clock_ms env)) \<and>
           \<not> prefix (h @ [''Homebase'']) (h @ [''.Homebase.tmp-'' @ u])"
proof -
  have res: "resolve_vault_path env rel = Inr (h @ [''Homebase''])"
    using h rel by (simp add: resolve_vault_path_Inr homebase_vault_root_Inr)
  have td': "map_of fs (butlast (h @ [''Homebase'']) @ [tmp_file_name (last (h @ [''Homebase''])) u]) \<noteq> Some Dir"
    using td by (simp add: tmp_file_name_def)
  obtain fs' where "write_atomic (clock_ms env) u (h @ [''Homebase'']) c fs =
      (Inl (IoError ''Failed to replace'' EISDIR), fs')"
    "map_of fs' (h @ [tmp_file_name ''Homebase'' u]) = Some (File c (clock_ms env))"
    using write_atomic_dir_target[OF wf _ d td'] by auto
  then show ?thesis using res by (simp add: vault_write_note_def res_simps tmp_file_name_def)
qed

theorem write_note_root_escapes_witness:
  "wf_fs demo_vault_fs \<and> home_dir demo_env = Some [''home'', ''u''] \<and> \<not> is_absolute '''' \<and>
   path_components '''' = [] \<and> map_of demo_vault_fs [''home'', ''u'', ''Homebase''] = Some Dir \<and>
   map_of demo_vault_fs [''home'', ''u'', ''.Homebase.tmp-w''] \<noteq> Some Dir \<and>
   (\<exists>fs'. vault_write_note demo_env ''w'' '''' ''new'' demo_vault_fs =
        (Inl (IoError ''Failed to replace'' EISDIR), fs') \<and>
      map_of fs' [''home'', ''u'', ''.Homebase.tmp-w''] = Some (File ''new'' 1000))"
proof -
  have h: "home_dir demo_env = Some [''home'', ''u'']" by simp
  have rel: "\<not> is_absolute ''''" "path_components '''' = []"
    by (simp_all add: is_absolute_def path_components_def)
  have d: "map_of demo_vault_fs ([''home'', ''u''] @ [''Homebase'']) = Some Dir" by simp
  have td: "map_of demo_vault_fs ([''home'', ''u''] @ [''.Homebase.tmp-'' @ ''w'']) \<noteq> Some Dir" by simp
  show ?thesis
    using write_note_root_escapes[OF demo_vault_fs_wf h rel d td, of "''new''"]
      demo_vault_fs_wf rel by simp
qed

end
