(* ===== verification/Slug.thy ===== *)
theory Slug
  imports Paths
begin

text \<open>
  \<open>slugify\<close> of \<open>vault.rs\<close> (lines 486--505), which names project directories and the
  files \<open>vault_create_note_from_markdown\<close> creates: the input is trimmed, each character
  lower-cased (ASCII only), an alphanumeric character kept, and a run of other characters
  replaced by one dash; dashes at both ends are trimmed, and an empty result becomes
  \<open>"project"\<close>. The loop's pushes to \<open>out\<close> are produced in order by \<open>slug_loop\<close>, whose
  flag is \<open>last_was_dash\<close>. A multi-byte character is several bytes here and one
  \<open>char\<close> in Rust, but each of its bytes is non-alphanumeric, so the run it belongs to
  still yields one dash.
\<close>

definition to_ascii_lowercase :: "char \<Rightarrow> char" where
  "to_ascii_lowercase c =
     (if (65::nat) \<le> of_char c \<and> of_char c \<le> (90::nat) then char_of (of_char c + (32::nat)) else c)"

definition is_ascii_alphanumeric :: "char \<Rightarrow> bool" where
  "is_ascii_alphanumeric c \<longleftrightarrow>
     ((48::nat) \<le> of_char c \<and> of_char c \<le> (57::nat)) \<or>
     ((65::nat) \<le> of_char c \<and> of_char c \<le> (90::nat)) \<or>
     ((97::nat) \<le> of_char c \<and> of_char c \<le> (122::nat))"

fun slug_loop :: "string \<Rightarrow> bool \<Rightarrow> string" where
  "slug_loop [] last_was_dash = []"
| "slug_loop (ch # chs) last_was_dash =
     (let lower = to_ascii_lowercase ch in
      if is_ascii_alphanumeric lower then lower # slug_loop chs False
      else if \<not> last_was_dash then CHR ''-'' # slug_loop chs True
      else slug_loop chs last_was_dash)"

definition slugify :: "string \<Rightarrow> string" where
  "slugify input =
     (let out = trim_matches (slug_loop (trim input) False) CHR ''-''
      in if out = [] then ''project'' else out)"

text \<open>The shape of a slug: lower-case ASCII letters, digits and single dashes, not
  starting or ending with a dash.\<close>

definition is_slug_char :: "char \<Rightarrow> bool" where
  "is_slug_char c \<longleftrightarrow>
     c = CHR ''-'' \<or> ((48::nat) \<le> of_char c \<and> of_char c \<le> (57::nat)) \<or>
     ((97::nat) \<le> of_char c \<and> of_char c \<le> (122::nat))"

fun no_double_dash :: "string \<Rightarrow> bool" where
  "no_double_dash (a # b # cs) = (\<not> (a = CHR ''-'' \<and> b = CHR ''-'') \<and> no_double_dash (b # cs))"
| "no_double_dash cs = True"

definition is_slug :: "string \<Rightarrow> bool" where
  "is_slug w \<longleftrightarrow> w \<noteq> [] \<and> list_all is_slug_char w \<and> hd w \<noteq> CHR ''-'' \<and> last w \<noteq> CHR ''-'' \<and>
     no_double_dash w"

subsection \<open>The shape of a slug\<close>

lemma of_char_lt_256: "of_char (c::char) < (256::nat)"
  using of_char_of[of "of_char c"] of_char_mod_256[of c] by simp

lemma lower_slug_char:
  "is_ascii_alphanumeric (to_ascii_lowercase c) \<Longrightarrow> is_slug_char (to_ascii_lowercase c)"
proof -
  have lt: "of_char c < (256::nat)" by (rule of_char_lt_256)
  assume a: "is_ascii_alphanumeric (to_ascii_lowercase c)"
  show ?thesis
  proof (cases "(65::nat) \<le> of_char c \<and> of_char c \<le> (90::nat)")
    case True
    then have "of_char (to_ascii_lowercase c) = of_char c + (32::nat)"
      by (simp add: to_ascii_lowercase_def)
    with True show ?thesis by (simp add: is_slug_char_def)
  next
    case False
    with a show ?thesis
      by (auto simp: to_ascii_lowercase_def is_ascii_alphanumeric_def is_slug_char_def)
  qed
qed

lemma alnum_not_dash: "is_ascii_alphanumeric c \<Longrightarrow> c \<noteq> CHR ''-''"
  by (auto simp: is_ascii_alphanumeric_def)

lemma dash_char [simp]:
  "is_slug_char CHR ''-''" "to_ascii_lowercase CHR ''-'' = CHR ''-''"
  "\<not> is_ascii_alphanumeric CHR ''-''"
  by (simp_all add: is_slug_char_def to_ascii_lowercase_def is_ascii_alphanumeric_def)

lemma slug_loop_chars: "list_all is_slug_char (slug_loop cs b)"
  by (induction cs b rule: slug_loop.induct) (auto simp: Let_def lower_slug_char)

lemma no_double_dash_Cons:
  "no_double_dash (x # ys) \<longleftrightarrow> (ys = [] \<or> \<not> (x = CHR ''-'' \<and> hd ys = CHR ''-'')) \<and> no_double_dash ys"
  by (cases ys) auto

lemma no_double_dash_append:
  "no_double_dash (xs @ ys) \<Longrightarrow> no_double_dash xs \<and> no_double_dash ys"
  by (induction xs) (auto simp: no_double_dash_Cons)

lemma slug_loop_dashes:
  "no_double_dash (slug_loop cs b) \<and>
   (b \<longrightarrow> slug_loop cs b = [] \<or> hd (slug_loop cs b) \<noteq> CHR ''-'')"
  by (induction cs b rule: slug_loop.induct)
     (auto simp: Let_def no_double_dash_Cons alnum_not_dash)

lemma trim_end_matches_split:
  "s = trim_end_matches s c @ rev (takeWhile (\<lambda>x. x = c) (rev s))"
proof -
  have "rev (rev s) = rev (takeWhile (\<lambda>x. x = c) (rev s) @ dropWhile (\<lambda>x. x = c) (rev s))"
    by (simp only: takeWhile_dropWhile_id)
  then show ?thesis unfolding trim_end_matches_def rev_append rev_rev_ident .
qed

lemma trim_matches_split:
  "\<exists>a b. xs = a @ trim_matches xs c @ b"
proof -
  let ?d = "dropWhile (\<lambda>x. x = c) xs"
  have "xs = takeWhile (\<lambda>x. x = c) xs @ ?d" by simp
  also have "?d = trim_matches xs c @ rev (takeWhile (\<lambda>x. x = c) (rev ?d))"
    unfolding trim_matches_def by (rule trim_end_matches_split)
  finally show ?thesis by blast
qed

lemma trim_matches_hd:
  "trim_matches xs c \<noteq> [] \<Longrightarrow> hd (trim_matches xs c) \<noteq> c"
proof -
  let ?d = "dropWhile (\<lambda>x. x = c) xs"
  assume ne: "trim_matches xs c \<noteq> []"
  have split: "?d = trim_matches xs c @ rev (takeWhile (\<lambda>x. x = c) (rev ?d))"
    unfolding trim_matches_def by (rule trim_end_matches_split)
  with ne have "?d \<noteq> []" by (metis Nil_is_append_conv)
  then have "hd ?d \<noteq> c" by (rule hd_dropWhile)
  with split ne show ?thesis by (metis hd_append2)
qed

lemma trim_matches_last:
  "trim_matches xs c \<noteq> [] \<Longrightarrow> last (trim_matches xs c) \<noteq> c"
  unfolding trim_matches_def by (rule trim_end_matches_last)

text \<open>Every slug has the shape.\<close>

lemma slugify_shape: "is_slug (slugify s)"
proof (cases "trim_matches (slug_loop (trim s) False) CHR ''-'' = []")
  case True
  then show ?thesis
    by (simp add: slugify_def is_slug_def is_slug_char_def)
next
  case False
  let ?w = "trim_matches (slug_loop (trim s) False) CHR ''-''"
  obtain a b where ab: "slug_loop (trim s) False = a @ ?w @ b" using trim_matches_split by metis
  have "list_all is_slug_char (a @ ?w @ b)" using slug_loop_chars ab by metis
  then have chars: "list_all is_slug_char ?w" by simp
  have "no_double_dash (a @ ?w @ b)" using slug_loop_dashes ab by metis
  then have nd: "no_double_dash ?w" using no_double_dash_append by blast
  from False chars nd trim_matches_hd[OF False] trim_matches_last[OF False] show ?thesis
    by (simp add: slugify_def is_slug_def Let_def)
qed

subsection \<open>A slug is its own slug\<close>

lemma slug_char_not_whitespace: "is_slug_char c \<Longrightarrow> \<not> is_whitespace c"
  by (auto simp: is_slug_char_def is_whitespace_def)

lemma slug_char_lower: "is_slug_char c \<Longrightarrow> to_ascii_lowercase c = c"
  by (auto simp: is_slug_char_def to_ascii_lowercase_def)

lemma slug_char_alnum: "is_slug_char c \<Longrightarrow> c \<noteq> CHR ''-'' \<Longrightarrow> is_ascii_alphanumeric c"
  by (auto simp: is_slug_char_def is_ascii_alphanumeric_def)

lemma slug_loop_slug:
  "list_all is_slug_char w \<Longrightarrow> no_double_dash w \<Longrightarrow> (b \<longrightarrow> w = [] \<or> hd w \<noteq> CHR ''-'') \<Longrightarrow>
   slug_loop w b = w"
proof (induction w arbitrary: b)
  case Nil
  then show ?case by simp
next
  case (Cons c w)
  have sc: "is_slug_char c" and rest: "list_all is_slug_char w" "no_double_dash w"
    using Cons.prems by (auto simp: no_double_dash_Cons)
  show ?case
  proof (cases "c = CHR ''-''")
    case True
    with Cons.prems have "\<not> b" and "w = [] \<or> hd w \<noteq> CHR ''-''"
      by (auto simp: no_double_dash_Cons)
    with True rest Cons.IH[of True] show ?thesis
      by (simp add: Let_def)
  next
    case False
    with rest Cons.IH[of False] show ?thesis
      by (simp add: Let_def slug_char_lower[OF sc] slug_char_alnum[OF sc False])
  qed
qed

lemma slugify_slug: "is_slug w \<Longrightarrow> slugify w = w"
proof -
  assume w: "is_slug w"
  then have ne: "w \<noteq> []" and chars: "list_all is_slug_char w"
    and h: "hd w \<noteq> CHR ''-''" and l: "last w \<noteq> CHR ''-''" and nd: "no_double_dash w"
    by (auto simp: is_slug_def)
  have hs: "is_slug_char (hd w)" "is_slug_char (last w)"
    using ne chars by (auto simp: list_all_iff)
  have "dropWhile is_whitespace w = w"
    using hs slug_char_not_whitespace by (simp add: dropWhile_eq_self_iff)
  moreover have "dropWhile is_whitespace (rev w) = rev w"
    using ne hs slug_char_not_whitespace by (simp add: dropWhile_eq_self_iff hd_rev)
  ultimately have "trim w = w" by (simp add: trim_def)
  moreover have "slug_loop w False = w" using slug_loop_slug[OF chars nd] by simp
  moreover have "trim_matches w CHR ''-'' = w"
  proof -
    have "dropWhile (\<lambda>x. x = CHR ''-'') w = w" using h by (simp add: dropWhile_eq_self_iff)
    moreover have "dropWhile (\<lambda>x. x = CHR ''-'') (rev w) = rev w"
      using ne l by (simp add: dropWhile_eq_self_iff hd_rev)
    ultimately show ?thesis by (simp add: trim_matches_def trim_end_matches_def)
  qed
  ultimately show ?thesis using ne by (simp add: slugify_def)
qed

lemma set_trim: "set (trim s) \<subseteq> set s"
proof
  fix x
  assume "x \<in> set (trim s)"
  then have "x \<in> set (dropWhile is_whitespace (rev (dropWhile is_whitespace s)))"
    by (simp add: trim_def)
  then have "x \<in> set (dropWhile is_whitespace s)" by (auto dest: set_dropWhileD)
  then show "x \<in> set s" by (rule set_dropWhileD)
qed

lemma slug_loop_dashes_only:
  "list_all (\<lambda>c. \<not> is_ascii_alphanumeric (to_ascii_lowercase c)) cs \<Longrightarrow>
   set (slug_loop cs b) \<subseteq> {CHR ''-''}"
  by (induction cs b rule: slug_loop.induct) (auto simp: Let_def)

lemma slugify_no_alnum:
  assumes "list_all (\<lambda>c. \<not> is_ascii_alphanumeric (to_ascii_lowercase c)) s"
  shows "slugify s = ''project''"
proof -
  have "list_all (\<lambda>c. \<not> is_ascii_alphanumeric (to_ascii_lowercase c)) (trim s)"
    using assms set_trim by (auto simp: list_all_iff)
  then have "set (slug_loop (trim s) False) \<subseteq> {CHR ''-''}" by (rule slug_loop_dashes_only)
  then have d: "dropWhile (\<lambda>x. x = CHR ''-'') (slug_loop (trim s) False) = []"
    by (auto simp: dropWhile_eq_Nil_conv)
  have "trim_matches (slug_loop (trim s) False) CHR ''-'' = []"
    unfolding trim_matches_def trim_end_matches_def d by simp
  then show ?thesis by (simp add: slugify_def)
qed

lemma slug_char_dot_slash: "\<not> is_slug_char CHR ''.''" "\<not> is_slug_char CHR ''/''"
  by (simp_all add: is_slug_char_def)

lemma slugify_examples:
  "slugify ''  My Plan!! 2025 '' = ''my-plan-2025''"
  "slugify ''!!!'' = ''project''"
  by code_simp+

subsection \<open>Properties\<close>

text \<open>C10: \<open>slugify\<close> always returns a slug: a non-empty string of lower-case ASCII letters,
  digits and single inner dashes, not starting or ending with a dash. So it is one normal
  path component (no separator, not \<open>.\<close> or \<open>..\<close>), and \<open>Projects/<slug>\<close> and
  \<open>notes/inbox/<slug>.md\<close> stay one level below their parent.\<close>

theorem slugify_single_component:
  "is_slug (slugify s) \<and> path_components (slugify s) = [slugify s]"
proof -
  have w: "is_slug (slugify s)" by (rule slugify_shape)
  then have ne: "slugify s \<noteq> []" and chars: "list_all is_slug_char (slugify s)"
    by (simp_all add: is_slug_def)
  have "CHR ''/'' \<notin> set (slugify s)"
    using chars slug_char_dot_slash(2) by (auto simp: list_all_iff)
  moreover have "slugify s \<noteq> ''.''"
    using chars slug_char_dot_slash(1) by auto
  ultimately show ?thesis using w ne by (simp add: path_components_name_single)
qed


end
