(* ===== verification/NoteCreate.thy ===== *)
theory NoteCreate
  imports Notes Slug
begin

text \<open>
  Note creation in \<open>vault.rs\<close>: \<open>vault_create_note\<close> (lines 266--303) with its frontmatter,
  \<open>vault_create_note_in_inbox\<close> (lines 306--308), and \<open>vault_create_note_from_markdown\<close>
  (lines 220--263). The random values are parameters: \<open>us\<close> is the UUID of the temporary
  file of the settings write in the bootstrap, \<open>uid\<close> the new note's id
  (\<open>Uuid::new_v4()\<close> in its hyphenated form), \<open>u\<close> the UUID of the temporary file of the
  note's own write, and \<open>uf\<close> the fallback UUID of \<open>vault_create_note_from_markdown\<close>.
  \<open>Uuid::simple()\<close> is the id without its hyphens.
\<close>

record create_note_result =
  result_id :: string
  result_relative_path :: string
  result_contents :: string

record create_note_from_markdown_args =
  arg_id :: string
  arg_target_dir :: "string option"
  arg_title_hint :: "string option"
  arg_contents :: string

definition uuid_simple :: "string \<Rightarrow> string" where
  "uuid_simple uid = filter (\<lambda>c. c \<noteq> CHR ''-'') uid"

text \<open>The check both creation commands make of the target directory: a string prefix,
  without a separator after it.\<close>

definition create_target_allowed :: "string \<Rightarrow> bool" where
  "create_target_allowed target_dir_str \<longleftrightarrow>
     starts_with target_dir_str ''notes/inbox'' \<or> starts_with target_dir_str ''notes/folders'' \<or>
     starts_with target_dir_str ''notes/projects''"

definition bool_to_string :: "bool \<Rightarrow> string" where
  "bool_to_string b = (if b then ''true'' else ''false'')"

definition note_frontmatter :: "string \<Rightarrow> string \<Rightarrow> bool \<Rightarrow> string" where
  "note_frontmatter uid now_iso user_placed =
     ''---'' @ [CHR 0x0A] @ ''id: '' @ uid @ [CHR 0x0A] @ ''created: '' @ now_iso @ [CHR 0x0A] @
     ''modified: '' @ now_iso @ [CHR 0x0A] @ ''projects: []'' @ [CHR 0x0A] @ ''topics: []'' @ [CHR 0x0A] @
     ''user_placed: '' @ bool_to_string user_placed @ [CHR 0x0A] @ ''---'' @ [CHR 0x0A, CHR 0x0A]"

definition target_error :: vault_error where
  "target_error =
     InvalidArgument ''Target directory must be under notes/inbox, notes/folders, or notes/projects''"

text \<open>\<open>format!("{}/{}", target_dir_str.trim_end_matches('/'), file_name)\<close>.\<close>

definition note_rel_path :: "string \<Rightarrow> string \<Rightarrow> string" where
  "note_rel_path target_dir_str file_name = trim_end_matches target_dir_str CHR ''/'' @ ''/'' @ file_name"

definition untitled_file_name :: "string \<Rightarrow> string \<Rightarrow> string" where
  "untitled_file_name date uid = date @ ''-untitled-'' @ take 8 (uuid_simple uid) @ ''.md''"

definition vault_create_note ::
  "sysenv \<Rightarrow> string \<Rightarrow> string \<Rightarrow> string \<Rightarrow> string option \<Rightarrow> (fs, create_note_result) res" where
  "vault_create_note env us uid u target_dir =
     bindE (liftE (homebase_vault_root env)) (\<lambda>vault_root.
     bindE (ensure_vault_structure env us vault_root) (\<lambda>_.
     let file_name = untitled_file_name (local_date env) uid;
         target = (case target_dir of None \<Rightarrow> ''notes/inbox'' | Some d \<Rightarrow> d)
     in bindE (liftE (validate_relative_path target)) (\<lambda>target_dir_rel.
       let target_dir_str = path_to_forward_slashes target_dir_rel in
       if \<not> create_target_allowed target_dir_str then throwE target_error
       else
         let rel_path = note_rel_path target_dir_str file_name;
             user_placed = \<not> starts_with rel_path ''notes/inbox/'';
             contents = note_frontmatter uid (utc_now env) user_placed
         in bindE (write_atomic (clock_ms env) u (join vault_root rel_path) contents) (\<lambda>_.
            returnE \<lparr>result_id = uid, result_relative_path = rel_path, result_contents = contents\<rparr>))))"

definition vault_create_note_in_inbox ::
  "sysenv \<Rightarrow> string \<Rightarrow> string \<Rightarrow> string \<Rightarrow> (fs, create_note_result) res" where
  "vault_create_note_in_inbox env us uid u = vault_create_note env us uid u None"

text \<open>The file name of an imported note: the first eight characters of the id that are not
  dashes (eight of the fallback UUID when there are none), and the slug of the title.\<close>

definition markdown_file_name :: "string \<Rightarrow> string \<Rightarrow> string \<Rightarrow> string option \<Rightarrow> string" where
  "markdown_file_name date uf note_id title_hint =
     (let id_short = take 8 (filter (\<lambda>c. c \<noteq> CHR ''-'') note_id);
          id_short = (if id_short = [] then take 8 (uuid_simple uf) else id_short);
          slug = (case title_hint of None \<Rightarrow> ''note'' | Some h \<Rightarrow> slugify h)
      in date @ ''-'' @ slug @ ''-'' @ id_short @ ''.md'')"

definition vault_create_note_from_markdown ::
  "sysenv \<Rightarrow> string \<Rightarrow> string \<Rightarrow> string \<Rightarrow> create_note_from_markdown_args \<Rightarrow> (fs, string) res" where
  "vault_create_note_from_markdown env us uf u args =
     bindE (liftE (homebase_vault_root env)) (\<lambda>vault_root.
     bindE (ensure_vault_structure env us vault_root) (\<lambda>_.
     let note_id = trim (arg_id args) in
     if note_id = [] then throwE (InvalidArgument ''id is required'')
     else
       let file_name = markdown_file_name (local_date env) uf note_id (arg_title_hint args);
           target = (case arg_target_dir args of None \<Rightarrow> ''notes/inbox'' | Some d \<Rightarrow> d)
       in bindE (liftE (validate_relative_path target)) (\<lambda>target_dir_rel.
         let target_dir_str = path_to_forward_slashes target_dir_rel in
         if \<not> create_target_allowed target_dir_str then throwE target_error
         else
           let rel_path = note_rel_path target_dir_str file_name;
               full_path = join vault_root rel_path
           in bindE (getsE (\<lambda>fs. fs_exists fs full_path)) (\<lambda>exists.
              if exists then throwE (AlreadyExists ''Note file already exists'')
              else bindE (write_atomic (clock_ms env) u full_path (arg_contents args)) (\<lambda>_.
                returnE rel_path)))))"

text \<open>The demo vault with a note already at the name an import with id \<open>ab\<close> and title
  \<open>A\<close> computes, and the arguments of that import.\<close>

abbreviation demo_clash_fs :: fs where
  "demo_clash_fs \<equiv> demo_vault_fs @
     [([''home'', ''u'', ''Homebase'', ''notes'', ''inbox'', ''2025-01-01-a-ab.md''], File ''old'' 2)]"

abbreviation demo_import :: create_note_from_markdown_args where
  "demo_import \<equiv> \<lparr>arg_id = ''ab'', arg_target_dir = None, arg_title_hint = Some ''A'', arg_contents = ''# A''\<rparr>"

subsection \<open>Runs of the creation commands\<close>

lemma write_atomic_Nil: "write_atomic t u [] c fs = (Inl (InvalidPath ''Invalid path (missing parent)''), fs)"
  by (simp add: write_atomic_def res_simps)

lemma write_atomic_Inr_nonempty: "write_atomic t u p c fs = (Inr (), fs') \<Longrightarrow> p \<noteq> []"
  by (cases p) (auto simp: write_atomic_Nil)

lemma write_atomic_Inr_target:
  "write_atomic t u p c fs = (Inr (), fs') \<Longrightarrow> map_of fs' p = Some (File c t)"
  using write_atomic_Inr_effect write_atomic_Inr_nonempty by blast

lemma vault_create_note_Inr:
  "vault_create_note env us uid u td fs = (Inr res, fs') \<longleftrightarrow>
   (\<exists>root fs1 target_rel. homebase_vault_root env = Inr root \<and>
      ensure_vault_structure env us root fs = (Inr (), fs1) \<and>
      validate_relative_path (case td of None \<Rightarrow> ''notes/inbox'' | Some d \<Rightarrow> d) = Inr target_rel \<and>
      create_target_allowed (path_to_forward_slashes target_rel) \<and>
      (let rel = note_rel_path (path_to_forward_slashes target_rel) (untitled_file_name (local_date env) uid);
           contents = note_frontmatter uid (utc_now env) (\<not> starts_with rel ''notes/inbox/'')
       in write_atomic (clock_ms env) u (join root rel) contents fs1 = (Inr (), fs') \<and>
          res = \<lparr>result_id = uid, result_relative_path = rel, result_contents = contents\<rparr>))"
  by (auto simp: vault_create_note_def res_simps Let_def split: sum.splits prod.splits)

lemma inbox_target:
  "validate_relative_path ''notes/inbox'' = Inr ''notes/inbox''"
  "path_to_forward_slashes ''notes/inbox'' = ''notes/inbox''"
  "note_rel_path ''notes/inbox'' f = ''notes/inbox/'' @ f"
  by (simp_all add: validate_relative_path_def is_absolute_def path_components_def
      path_to_forward_slashes_def note_rel_path_def trim_end_matches_def)

lemma demo_uid_run:
  "vault_create_note demo_env ''s'' ''0123abcd-aaaa-bbbb-cccc-000000000000'' ''w'' None demo_vault_fs =
     (fst (vault_create_note demo_env ''s'' ''0123abcd-aaaa-bbbb-cccc-000000000000'' ''w'' None demo_vault_fs),
      snd (vault_create_note demo_env ''s'' ''0123abcd-aaaa-bbbb-cccc-000000000000'' ''w'' None demo_vault_fs))"
  by simp

subsection \<open>Properties of note creation\<close>

text \<open>C18: a note that \<open>vault_create_note\<close> creates holds its frontmatter at the returned
  relative path, stamped with the time of the write; the frontmatter carries the new id,
  the creation time as both \<open>created\<close> and \<open>modified\<close>, and \<open>user_placed\<close> set exactly when
  the returned path is not under \<open>notes/inbox/\<close> (spec 3, 4.4).\<close>

theorem create_note_effect:
  assumes run: "vault_create_note env us uid u td fs = (Inr res, fs')"
    and root: "homebase_vault_root env = Inr root"
  shows "result_id res = uid \<and>
    result_contents res =
      note_frontmatter uid (utc_now env) (\<not> starts_with (result_relative_path res) ''notes/inbox/'') \<and>
    map_of fs' (join root (result_relative_path res)) = Some (File (result_contents res) (clock_ms env))"
  using run root
  by (auto simp: vault_create_note_def res_simps Let_def split: sum.splits prod.splits if_splits
      dest: write_atomic_Inr_target)

theorem create_note_effect_witness:
  "homebase_vault_root demo_env = Inr [''home'', ''u'', ''Homebase''] \<and>
   fst (vault_create_note demo_env ''s'' ''0123abcd-aaaa-bbbb-cccc-000000000000'' ''w'' None demo_vault_fs) =
     Inr \<lparr>result_id = ''0123abcd-aaaa-bbbb-cccc-000000000000'',
          result_relative_path = ''notes/inbox/2025-01-01-untitled-0123abcd.md'',
          result_contents = note_frontmatter ''0123abcd-aaaa-bbbb-cccc-000000000000''
            ''2025-01-01T00:00:00+00:00'' False\<rparr> \<and>
   map_of (snd (vault_create_note demo_env ''s'' ''0123abcd-aaaa-bbbb-cccc-000000000000'' ''w'' None demo_vault_fs))
     (join [''home'', ''u'', ''Homebase''] ''notes/inbox/2025-01-01-untitled-0123abcd.md'') =
     Some (File (note_frontmatter ''0123abcd-aaaa-bbbb-cccc-000000000000'' ''2025-01-01T00:00:00+00:00'' False) 1000)"
proof -
  have r: "fst (vault_create_note demo_env ''s'' ''0123abcd-aaaa-bbbb-cccc-000000000000'' ''w'' None demo_vault_fs) =
     Inr \<lparr>result_id = ''0123abcd-aaaa-bbbb-cccc-000000000000'',
          result_relative_path = ''notes/inbox/2025-01-01-untitled-0123abcd.md'',
          result_contents = note_frontmatter ''0123abcd-aaaa-bbbb-cccc-000000000000''
            ''2025-01-01T00:00:00+00:00'' False\<rparr>"
    by code_simp
  show ?thesis
    using create_note_effect[OF demo_uid_run[unfolded r] demo_vault_root] r demo_vault_root by simp
qed

text \<open>Without a target directory the note goes to the inbox, under the name
  \<open><date>-untitled-<first 8 hex digits of the id>.md\<close>, and its frontmatter says
  \<open>user_placed: false\<close> (spec 4.4, 8).\<close>

theorem create_note_inbox_default:
  assumes "vault_create_note env us uid u None fs = (Inr res, fs')"
  shows "result_relative_path res = ''notes/inbox/'' @ untitled_file_name (local_date env) uid \<and>
         result_contents res = note_frontmatter uid (utc_now env) False"
  using assms by (auto simp: vault_create_note_Inr Let_def inbox_target)

theorem create_note_inbox_default_witness:
  "vault_create_note demo_env ''s'' ''0123abcd-aaaa-bbbb-cccc-000000000000'' ''w'' None demo_vault_fs =
     (fst (vault_create_note demo_env ''s'' ''0123abcd-aaaa-bbbb-cccc-000000000000'' ''w'' None demo_vault_fs),
      snd (vault_create_note demo_env ''s'' ''0123abcd-aaaa-bbbb-cccc-000000000000'' ''w'' None demo_vault_fs)) \<and>
   ''notes/inbox/'' @ untitled_file_name ''2025-01-01'' ''0123abcd-aaaa-bbbb-cccc-000000000000'' =
     ''notes/inbox/2025-01-01-untitled-0123abcd.md''"
proof -
  have r: "fst (vault_create_note demo_env ''s'' ''0123abcd-aaaa-bbbb-cccc-000000000000'' ''w'' None demo_vault_fs) =
     Inr \<lparr>result_id = ''0123abcd-aaaa-bbbb-cccc-000000000000'',
          result_relative_path = ''notes/inbox/2025-01-01-untitled-0123abcd.md'',
          result_contents = note_frontmatter ''0123abcd-aaaa-bbbb-cccc-000000000000''
            ''2025-01-01T00:00:00+00:00'' False\<rparr>"
    by code_simp
  show ?thesis
    using create_note_inbox_default[OF demo_uid_run[unfolded r]] by simp
qed

text \<open>A note created in \<open>notes/folders/x\<close> lands there and its frontmatter says
  \<open>user_placed: true\<close> (spec 4.4, 8).\<close>

theorem create_note_in_folder:
  assumes "vault_create_note env us uid u (Some ''notes/folders/x'') fs = (Inr res, fs')"
  shows "result_relative_path res = ''notes/folders/x/'' @ untitled_file_name (local_date env) uid \<and>
         result_contents res = note_frontmatter uid (utc_now env) True"
proof -
  have v: "validate_relative_path ''notes/folders/x'' = Inr ''notes/folders/x''"
    by (simp add: validate_relative_path_def is_absolute_def path_components_def)
  have r: "note_rel_path (path_to_forward_slashes ''notes/folders/x'') f = ''notes/folders/x/'' @ f" for f
    by (simp add: note_rel_path_def path_to_forward_slashes_def trim_end_matches_def)
  show ?thesis using assms by (auto simp: vault_create_note_Inr Let_def v r)
qed

theorem create_note_in_folder_witness:
  "vault_create_note demo_env ''s'' ''0123abcd-aaaa-bbbb-cccc-000000000000'' ''w'' (Some ''notes/folders/x'') demo_vault_fs =
     (fst (vault_create_note demo_env ''s'' ''0123abcd-aaaa-bbbb-cccc-000000000000'' ''w'' (Some ''notes/folders/x'') demo_vault_fs),
      snd (vault_create_note demo_env ''s'' ''0123abcd-aaaa-bbbb-cccc-000000000000'' ''w'' (Some ''notes/folders/x'') demo_vault_fs)) \<and>
   ''notes/folders/x/'' @ untitled_file_name ''2025-01-01'' ''0123abcd-aaaa-bbbb-cccc-000000000000'' =
     ''notes/folders/x/2025-01-01-untitled-0123abcd.md''"
proof -
  have r: "fst (vault_create_note demo_env ''s'' ''0123abcd-aaaa-bbbb-cccc-000000000000'' ''w'' (Some ''notes/folders/x'') demo_vault_fs) =
     Inr \<lparr>result_id = ''0123abcd-aaaa-bbbb-cccc-000000000000'',
          result_relative_path = ''notes/folders/x/2025-01-01-untitled-0123abcd.md'',
          result_contents = note_frontmatter ''0123abcd-aaaa-bbbb-cccc-000000000000''
            ''2025-01-01T00:00:00+00:00'' True\<rparr>"
    by code_simp
  have run: "vault_create_note demo_env ''s'' ''0123abcd-aaaa-bbbb-cccc-000000000000'' ''w'' (Some ''notes/folders/x'') demo_vault_fs =
     (Inr \<lparr>result_id = ''0123abcd-aaaa-bbbb-cccc-000000000000'',
          result_relative_path = ''notes/folders/x/2025-01-01-untitled-0123abcd.md'',
          result_contents = note_frontmatter ''0123abcd-aaaa-bbbb-cccc-000000000000''
            ''2025-01-01T00:00:00+00:00'' True\<rparr>,
      snd (vault_create_note demo_env ''s'' ''0123abcd-aaaa-bbbb-cccc-000000000000'' ''w'' (Some ''notes/folders/x'') demo_vault_fs))"
    using r by (metis prod.collapse)
  show ?thesis using create_note_in_folder[OF run] by simp
qed


text \<open>C20: \<open>vault_create_note\<close> never reports \<open>AlreadyExists\<close>: it does not look for a
  note at the path it computes, and a note already there is replaced (spec 4.4 says the
  collision fails with \<open>AlreadyExists\<close>).\<close>

lemma vault_create_note_raises:
  "raises (\<lambda>e. \<forall>m. e \<noteq> AlreadyExists m) (vault_create_note env us uid u td)"
  unfolding vault_create_note_def Let_def
  by (intro raises_bindE raises_liftE raises_if raises_throwE raises_returnE
      ensure_vault_structure_raises write_atomic_raises)
     (auto simp: homebase_vault_root_def validate_relative_path_def target_error_def
       split: option.splits if_splits)


lemma create_note_replaces:
  "map_of (snd (vault_create_note demo_env ''s'' ''0123abcd-aaaa-bbbb-cccc-000000000000'' ''w'' None
     (demo_vault_fs @ [([''home'', ''u'', ''Homebase'', ''notes'', ''inbox'', ''2025-01-01-untitled-0123abcd.md''],
        File ''kept?'' 3)])))
     [''home'', ''u'', ''Homebase'', ''notes'', ''inbox'', ''2025-01-01-untitled-0123abcd.md''] =
   Some (File (note_frontmatter ''0123abcd-aaaa-bbbb-cccc-000000000000'' ''2025-01-01T00:00:00+00:00'' False) 1000)"
  by code_simp

subsection \<open>Properties of the import of a note\<close>

lemma demo_ensure: "ensure_vault_structure demo_env ''s'' [''home'', ''u'', ''Homebase''] demo_vault_fs =
  (Inr (), demo_vault_fs)"
  by code_simp

text \<open>C21: an import whose id is empty after trimming fails with \<open>InvalidArgument\<close> and
  writes nothing beyond the bootstrap, which has already run (spec 4.4).\<close>

theorem from_markdown_requires_id:
  assumes "homebase_vault_root env = Inr root" "ensure_vault_structure env us root fs = (Inr (), fs1)"
    "trim (arg_id args) = []"
  shows "vault_create_note_from_markdown env us uf u args fs = (Inl (InvalidArgument ''id is required''), fs1)"
  using assms by (simp add: vault_create_note_from_markdown_def res_simps)

theorem from_markdown_requires_id_witness:
  "vault_create_note_from_markdown demo_env ''s'' ''f'' ''w''
     \<lparr>arg_id = ''  '', arg_target_dir = None, arg_title_hint = None, arg_contents = ''x''\<rparr> demo_vault_fs =
   (Inl (InvalidArgument ''id is required''), demo_vault_fs)"
proof -
  have t: "trim (arg_id \<lparr>arg_id = ''  '', arg_target_dir = None, arg_title_hint = None, arg_contents = ''x''\<rparr>) = []"
    by (simp add: trim_def is_whitespace_def)
  show ?thesis by (rule from_markdown_requires_id[OF demo_vault_root demo_ensure t])
qed

text \<open>C22: an import never overwrites: when a file or directory is at the computed path
  after the bootstrap, it fails with \<open>AlreadyExists\<close> and leaves the disk as the
  bootstrap left it (spec 4.4).\<close>

theorem from_markdown_no_overwrite:
  assumes "homebase_vault_root env = Inr root" "ensure_vault_structure env us root fs = (Inr (), fs1)"
    "trim (arg_id args) \<noteq> []"
    "validate_relative_path (case arg_target_dir args of None \<Rightarrow> ''notes/inbox'' | Some d \<Rightarrow> d) = Inr tr"
    "create_target_allowed (path_to_forward_slashes tr)"
    "fs_exists fs1 (join root (note_rel_path (path_to_forward_slashes tr)
       (markdown_file_name (local_date env) uf (trim (arg_id args)) (arg_title_hint args))))"
  shows "vault_create_note_from_markdown env us uf u args fs =
    (Inl (AlreadyExists ''Note file already exists''), fs1)"
  using assms by (simp add: vault_create_note_from_markdown_def res_simps Let_def)

theorem from_markdown_no_overwrite_witness:
  "vault_create_note_from_markdown demo_env ''s'' ''f'' ''w'' demo_import demo_clash_fs =
   (Inl (AlreadyExists ''Note file already exists''), demo_clash_fs)"
proof -
  have e: "ensure_vault_structure demo_env ''s'' [''home'', ''u'', ''Homebase''] demo_clash_fs =
    (Inr (), demo_clash_fs)" by code_simp
  have i: "trim (arg_id demo_import) \<noteq> []" by (simp add: trim_def is_whitespace_def)
  have v: "validate_relative_path (case arg_target_dir demo_import of None \<Rightarrow> ''notes/inbox'' | Some d \<Rightarrow> d) =
    Inr ''notes/inbox''" by (simp add: inbox_target)
  have a: "create_target_allowed (path_to_forward_slashes ''notes/inbox'')"
    by (simp add: inbox_target create_target_allowed_def)
  have x: "fs_exists demo_clash_fs (join [''home'', ''u'', ''Homebase''] (note_rel_path (path_to_forward_slashes ''notes/inbox'')
       (markdown_file_name (local_date demo_env) ''f'' (trim (arg_id demo_import)) (arg_title_hint demo_import))))"
    by code_simp
  show ?thesis by (rule from_markdown_no_overwrite[OF demo_vault_root e i v a x])
qed

text \<open>C23: an import that succeeds returns the path \<open><target>/<date>-<slug>-<id8>.md\<close>,
  where nothing was after the bootstrap, and the note there holds the given contents.\<close>

theorem from_markdown_effect:
  assumes run: "vault_create_note_from_markdown env us uf u args fs = (Inr rel, fs')"
    and root: "homebase_vault_root env = Inr root"
  shows "\<exists>fs1 tr. ensure_vault_structure env us root fs = (Inr (), fs1) \<and>
    validate_relative_path (case arg_target_dir args of None \<Rightarrow> ''notes/inbox'' | Some d \<Rightarrow> d) = Inr tr \<and>
    create_target_allowed (path_to_forward_slashes tr) \<and>
    rel = note_rel_path (path_to_forward_slashes tr)
      (markdown_file_name (local_date env) uf (trim (arg_id args)) (arg_title_hint args)) \<and>
    \<not> fs_exists fs1 (join root rel) \<and>
    map_of fs' (join root rel) = Some (File (arg_contents args) (clock_ms env))"
  using run root
  by (auto simp: vault_create_note_from_markdown_def res_simps Let_def
      split: sum.splits prod.splits if_splits dest: write_atomic_Inr_target)

theorem from_markdown_effect_witness:
  "fst (vault_create_note_from_markdown demo_env ''s'' ''f'' ''w'' demo_import demo_vault_fs) =
     Inr ''notes/inbox/2025-01-01-a-ab.md'' \<and>
   map_of (snd (vault_create_note_from_markdown demo_env ''s'' ''f'' ''w'' demo_import demo_vault_fs))
     (join [''home'', ''u'', ''Homebase''] ''notes/inbox/2025-01-01-a-ab.md'') = Some (File ''# A'' 1000)"
proof -
  have r: "fst (vault_create_note_from_markdown demo_env ''s'' ''f'' ''w'' demo_import demo_vault_fs) =
     Inr ''notes/inbox/2025-01-01-a-ab.md''" by code_simp
  have run: "vault_create_note_from_markdown demo_env ''s'' ''f'' ''w'' demo_import demo_vault_fs =
     (Inr ''notes/inbox/2025-01-01-a-ab.md'',
      snd (vault_create_note_from_markdown demo_env ''s'' ''f'' ''w'' demo_import demo_vault_fs))"
    using r by (metis prod.collapse)
  show ?thesis using from_markdown_effect[OF run demo_vault_root] r by auto
qed

text \<open>C24: a title with no ASCII letter or digit gives the slug \<open>project\<close>, the default of
  \<open>slugify\<close>, so the note is named as if its title were "project"; the spec (4.4) says
  such a title falls back to "note", as a missing title does.\<close>

theorem markdown_title_fallback:
  assumes "list_all (\<lambda>c. \<not> is_ascii_alphanumeric (to_ascii_lowercase c)) h"
  shows "markdown_file_name date uf i (Some h) = markdown_file_name date uf i (Some ''project'') \<and>
         markdown_file_name date uf i (Some h) \<noteq> markdown_file_name date uf i None"
proof -
  have "slugify ''project'' = ''project''" by code_simp
  then show ?thesis using slugify_no_alnum[OF assms] by (simp add: markdown_file_name_def Let_def)
qed

theorem markdown_title_fallback_witness:
  "list_all (\<lambda>c. \<not> is_ascii_alphanumeric (to_ascii_lowercase c)) ''!?'' \<and>
   markdown_file_name ''2025-01-01'' ''f'' ''ab'' (Some ''!?'') = ''2025-01-01-project-ab.md''"
proof -
  have h: "list_all (\<lambda>c. \<not> is_ascii_alphanumeric (to_ascii_lowercase c)) ''!?''" by code_simp
  have "markdown_file_name ''2025-01-01'' ''f'' ''ab'' (Some ''project'') = ''2025-01-01-project-ab.md''"
    by code_simp
  then show ?thesis using markdown_title_fallback[OF h, of "''2025-01-01''" "''f''" "''ab''"] h by simp
qed

end
