(* ===== verification/NoteMove.thy ===== *)
theory NoteMove
  imports NoteCreate
begin

text \<open>
  Relocation of notes in \<open>vault.rs\<close>: \<open>vault_archive_note\<close> (lines 311--339), which mirrors
  a note below \<open>notes/archive\<close>, and \<open>vault_move_note\<close> (lines 342--375), which moves it to
  a directory below \<open>notes/inbox\<close>, \<open>notes/folders\<close> or \<open>notes/projects\<close>, keeping its file
  name. \<open>Path::parent\<close> of a path is its component list without the last component (none
  for the file-system root), and \<open>Path::file_name\<close> is its last component.
\<close>

definition vault_archive_note :: "sysenv \<Rightarrow> string \<Rightarrow> string \<Rightarrow> (fs, string) res" where
  "vault_archive_note env us relative_path =
     bindE (liftE (homebase_vault_root env)) (\<lambda>vault_root.
     bindE (ensure_vault_structure env us vault_root) (\<lambda>_.
     bindE (liftE (validate_relative_path relative_path)) (\<lambda>rel.
     let source = join vault_root rel in
     bindE (getsE (\<lambda>fs. fs_exists fs source)) (\<lambda>exists.
     if \<not> exists then throwE (NotFound ''Note does not exist'')
     else
       let rel_str = path_to_forward_slashes rel in
       if starts_with rel_str ''notes/archive/'' then returnE rel_str
       else if \<not> starts_with rel_str ''notes/'' then throwE (InvalidArgument ''Can only archive notes under notes/'')
       else
         let rel_under_notes = trim_start_matches rel_str ''notes/'';
             target_rel = ''notes/archive/'' @ rel_under_notes;
             target = join vault_root target_rel
         in bindE (if target = [] then returnE ()
                   else io ''Failed to create'' (\<lambda>fs. create_dir_all fs (butlast target))) (\<lambda>_.
            bindE (io ''Failed to archive note'' (\<lambda>fs. rename fs source target)) (\<lambda>_.
            returnE target_rel))))))"

text \<open>The check \<open>vault_move_note\<close> makes of its target: one of the three directories, or a
  path below one of them.\<close>

definition move_target_allowed :: "string \<Rightarrow> bool" where
  "move_target_allowed target_dir_str \<longleftrightarrow>
     starts_with target_dir_str ''notes/inbox/'' \<or> target_dir_str = ''notes/inbox'' \<or>
     starts_with target_dir_str ''notes/folders/'' \<or> target_dir_str = ''notes/folders'' \<or>
     starts_with target_dir_str ''notes/projects/'' \<or> target_dir_str = ''notes/projects''"

definition vault_move_note :: "sysenv \<Rightarrow> string \<Rightarrow> string \<Rightarrow> string \<Rightarrow> (fs, string) res" where
  "vault_move_note env us relative_path target_dir =
     bindE (liftE (homebase_vault_root env)) (\<lambda>vault_root.
     bindE (ensure_vault_structure env us vault_root) (\<lambda>_.
     bindE (liftE (validate_relative_path relative_path)) (\<lambda>rel.
     let src = join vault_root rel in
     bindE (getsE (\<lambda>fs. fs_exists fs src)) (\<lambda>exists.
     if \<not> exists then throwE (NotFound ''Note does not exist'')
     else
       bindE (liftE (validate_relative_path target_dir)) (\<lambda>target_dir_rel.
       let target_dir_str = path_to_forward_slashes target_dir_rel in
       if \<not> move_target_allowed target_dir_str then throwE target_error
       else if src = [] then throwE (InvalidArgument ''Invalid source path'')
       else
         let file_name = last src;
             dest_dir = join vault_root target_dir_rel
         in bindE (io ''Failed to create'' (\<lambda>fs. create_dir_all fs dest_dir)) (\<lambda>_.
            let dest = dest_dir @ [file_name] in
            bindE (io ''Failed to move note'' (\<lambda>fs. rename fs src dest)) (\<lambda>_.
            liftE (relative_from_vault_root env dest))))))))"

text \<open>The demo vault with a note below \<open>notes/notes\<close>.\<close>

abbreviation demo_nested_fs :: fs where
  "demo_nested_fs \<equiv> demo_vault_fs @
     [([''home'', ''u'', ''Homebase'', ''notes'', ''notes''], Dir),
      ([''home'', ''u'', ''Homebase'', ''notes'', ''notes'', ''x.md''], File ''X'' 3)]"

subsection \<open>Runs of the archive command\<close>

lemma homebase_vault_root_nonempty: "homebase_vault_root env = Inr root \<Longrightarrow> root \<noteq> []"
  by (auto simp: homebase_vault_root_Inr)

lemma join_nonempty: "root \<noteq> [] \<Longrightarrow> \<not> is_absolute s \<Longrightarrow> join root s \<noteq> []"
  by (simp add: join_def)

lemma archive_target_relative: "\<not> is_absolute (''notes/archive/'' @ s)"
  by (simp add: is_absolute_def)

lemma vault_archive_note_run:
  assumes root: "homebase_vault_root env = Inr root"
    and ens: "ensure_vault_structure env us root fs = (Inr (), fs1)"
  shows "vault_archive_note env us rel fs =
    (case validate_relative_path rel of
       Inl e \<Rightarrow> (Inl e, fs1)
     | Inr rel' \<Rightarrow>
         if \<not> fs_exists fs1 (join root rel') then (Inl (NotFound ''Note does not exist''), fs1)
         else if starts_with (path_to_forward_slashes rel') ''notes/archive/''
         then (Inr (path_to_forward_slashes rel'), fs1)
         else if \<not> starts_with (path_to_forward_slashes rel') ''notes/''
         then (Inl (InvalidArgument ''Can only archive notes under notes/''), fs1)
         else
           let target_rel = ''notes/archive/'' @ trim_start_matches (path_to_forward_slashes rel') ''notes/'';
               target = join root target_rel
           in case create_dir_all fs1 (butlast target) of
                Inl e \<Rightarrow> (Inl (IoError ''Failed to create'' e), fs1)
              | Inr fs2 \<Rightarrow>
                  (case rename fs2 (join root rel') target of
                     Inl e \<Rightarrow> (Inl (IoError ''Failed to archive note'' e), fs2)
                   | Inr fs3 \<Rightarrow> (Inr target_rel, fs3)))"
proof -
  have ne: "join root (''notes/archive/'' @ s) \<noteq> []" for s
    using join_nonempty[OF homebase_vault_root_nonempty[OF root] archive_target_relative] .
  show ?thesis
    using root ens ne by (simp add: vault_archive_note_def res_simps Let_def split: sum.splits)
qed

lemma create_dir_all_keeps_node:
  "create_dir_all fs p = Inr fs' \<Longrightarrow> map_of fs q = Some n \<Longrightarrow> map_of fs' q = Some n"
  using create_dir_all_map_of[of fs p fs' q] by auto

lemma create_dir_all_parent_absent:
  "create_dir_all fs (butlast q) = Inr fs' \<Longrightarrow> q \<noteq> [] \<Longrightarrow> map_of fs q = None \<Longrightarrow> map_of fs' q = None"
  using create_dir_all_map_of[of fs "butlast q" fs' q] not_prefix_butlast by auto

lemma validate_relative_path_same: "validate_relative_path p = Inr r \<Longrightarrow> r = p"
  by (simp add: validate_relative_path_Inr)

subsection \<open>Properties of archiving\<close>

text \<open>C25: archiving a note that is not yet archived moves it to the mirrored position
  below \<open>notes/archive\<close> (spec 4.4, 8): the result is \<open>notes/archive/\<close> followed by the
  path with its leading \<open>notes/\<close> stripped, the note is there with its contents and time,
  and it is gone from where it was; this when that position was free after the
  bootstrap.\<close>

theorem archive_moves_note:
  assumes root: "homebase_vault_root env = Inr root"
    and ens: "ensure_vault_structure env us root fs = (Inr (), fs1)"
    and run: "vault_archive_note env us rel fs = (Inr res, fs')"
    and src: "map_of fs1 (join root rel) = Some (File c t)"
    and na: "\<not> starts_with (path_to_forward_slashes rel) ''notes/archive/''"
    and free: "map_of fs1 (join root res) = None"
  shows "res = ''notes/archive/'' @ trim_start_matches (path_to_forward_slashes rel) ''notes/'' \<and>
         map_of fs' (join root res) = Some (File c t) \<and> map_of fs' (join root rel) = None"
proof -
  let ?target_rel = "''notes/archive/'' @ trim_start_matches (path_to_forward_slashes rel) ''notes/''"
  let ?target = "join root ?target_rel"
  have ex: "fs_exists fs1 (join root rel)" using src by (simp add: fs_exists_def)
  obtain rel' where v: "validate_relative_path rel = Inr rel'"
    using run by (cases "validate_relative_path rel") (auto simp: vault_archive_note_run[OF root ens])
  then have rel': "rel' = rel" by (rule validate_relative_path_same)
  have nts: "starts_with (path_to_forward_slashes rel) ''notes/''"
    using run v rel' ex na by (auto simp: vault_archive_note_run[OF root ens] split: if_splits)
  obtain fs2 where c: "create_dir_all fs1 (butlast ?target) = Inr fs2"
    and r: "rename fs2 (join root rel) ?target = Inr fs'" and res: "res = ?target_rel"
    using run v rel' ex na nts
    by (auto simp: vault_archive_note_run[OF root ens] Let_def split: sum.splits)
  have tne: "?target \<noteq> []"
    using join_nonempty[OF homebase_vault_root_nonempty[OF root] archive_target_relative] .
  have src2: "map_of fs2 (join root rel) = Some (File c t)"
    using create_dir_all_keeps_node[OF c src] .
  have tgt2: "map_of fs2 ?target = None"
    using create_dir_all_parent_absent[OF c tne] free res by simp
  have "join root rel \<noteq> ?target" using src2 tgt2 by auto
  with rename_file_effect[OF r src2] res show ?thesis by simp
qed

theorem archive_moves_note_witness:
  "map_of (snd (vault_archive_note demo_env ''s'' ''notes/inbox/a.md'' demo_vault_fs))
     (join [''home'', ''u'', ''Homebase''] ''notes/archive/inbox/a.md'') = Some (File ''A'' 5) \<and>
   map_of (snd (vault_archive_note demo_env ''s'' ''notes/inbox/a.md'' demo_vault_fs))
     (join [''home'', ''u'', ''Homebase''] ''notes/inbox/a.md'') = None"
proof -
  let ?run = "vault_archive_note demo_env ''s'' ''notes/inbox/a.md'' demo_vault_fs"
  have r: "fst ?run = Inr ''notes/archive/inbox/a.md''" by code_simp
  then have run: "?run = (Inr ''notes/archive/inbox/a.md'', snd ?run)" by (metis prod.collapse)
  have s: "map_of demo_vault_fs (join [''home'', ''u'', ''Homebase''] ''notes/inbox/a.md'') = Some (File ''A'' 5)"
    by code_simp
  have na: "\<not> starts_with (path_to_forward_slashes ''notes/inbox/a.md'') ''notes/archive/''" by code_simp
  have fr: "map_of demo_vault_fs (join [''home'', ''u'', ''Homebase''] ''notes/archive/inbox/a.md'') = None"
    by code_simp
  show ?thesis using archive_moves_note[OF demo_vault_root demo_ensure run s na fr] by simp
qed



text \<open>C27: the prefix \<open>notes/\<close> is stripped with \<open>trim_start_matches\<close>, which removes it as
  often as it repeats, so a note below \<open>notes/notes/\<close> is not archived at its mirrored
  position \<open>notes/archive/notes/...\<close>: it lands where the note of the same name directly
  below \<open>notes/\<close> is archived.\<close>

theorem archive_strips_notes_repeatedly:
  assumes root: "homebase_vault_root env = Inr root"
    and ens: "ensure_vault_structure env us root fs = (Inr (), fs1)"
    and run: "vault_archive_note env us (''notes/notes/'' @ s) fs = (Inr res, fs')"
    and bs: "CHR 0x5C \<notin> set s"
  shows "res = ''notes/archive/'' @ trim_start_matches s ''notes/'' \<and> res \<noteq> ''notes/archive/notes/'' @ s"
proof -
  have p: "path_to_forward_slashes (''notes/notes/'' @ s) = ''notes/notes/'' @ s"
    using bs by (simp add: path_to_forward_slashes_id)
  have t: "trim_start_matches (''notes/notes/'' @ s) ''notes/'' = trim_start_matches s ''notes/''"
    using trim_start_matches_prefix[of "''notes/''" "''notes/'' @ s"] trim_start_matches_prefix[of "''notes/''" s]
    by simp
  have na: "\<not> starts_with (''notes/notes/'' @ s) ''notes/archive/''" by simp
  obtain rel' where v: "validate_relative_path (''notes/notes/'' @ s) = Inr rel'"
    using run by (cases "validate_relative_path (''notes/notes/'' @ s)")
      (auto simp: vault_archive_note_run[OF root ens])
  then have rel': "rel' = ''notes/notes/'' @ s" by (rule validate_relative_path_same)
  have res: "res = ''notes/archive/'' @ trim_start_matches s ''notes/''"
    using run v rel' p t na
    by (auto simp: vault_archive_note_run[OF root ens] Let_def split: sum.splits if_splits)
  show ?thesis using res length_trim_start_matches[of s "''notes/''"] by auto
qed

theorem archive_strips_notes_repeatedly_witness:
  "fst (vault_archive_note demo_env ''s'' (''notes/notes/'' @ ''x.md'') demo_nested_fs) = Inr ''notes/archive/x.md'' \<and>
   ''notes/archive/x.md'' = ''notes/archive/'' @ trim_start_matches ''x.md'' ''notes/'' \<and>
   ''notes/archive/x.md'' \<noteq> ''notes/archive/notes/'' @ ''x.md''"
proof -
  let ?run = "vault_archive_note demo_env ''s'' (''notes/notes/'' @ ''x.md'') demo_nested_fs"
  have e: "ensure_vault_structure demo_env ''s'' [''home'', ''u'', ''Homebase''] demo_nested_fs =
    (Inr (), demo_nested_fs)" by code_simp
  have r: "fst ?run = Inr ''notes/archive/x.md''" by code_simp
  then have run: "?run = (Inr ''notes/archive/x.md'', snd ?run)" by (metis prod.collapse)
  have bs: "CHR 0x5C \<notin> set ''x.md''" by simp
  show ?thesis using archive_strips_notes_repeatedly[OF demo_vault_root e run bs] r by simp
qed

text \<open>C28: archiving a path where nothing is, after the bootstrap, fails with
  \<open>NotFound\<close> and changes nothing more (spec 4.4).\<close>

theorem archive_not_found:
  assumes root: "homebase_vault_root env = Inr root"
    and ens: "ensure_vault_structure env us root fs = (Inr (), fs1)"
    and v: "validate_relative_path rel = Inr rel"
    and nx: "\<not> fs_exists fs1 (join root rel)"
  shows "vault_archive_note env us rel fs = (Inl (NotFound ''Note does not exist''), fs1)"
  using root ens v nx by (simp add: vault_archive_note_def res_simps Let_def)

theorem archive_not_found_witness:
  "vault_archive_note demo_env ''s'' ''notes/inbox/zz.md'' demo_vault_fs =
   (Inl (NotFound ''Note does not exist''), demo_vault_fs)"
proof -
  have v: "validate_relative_path ''notes/inbox/zz.md'' = Inr ''notes/inbox/zz.md''" by code_simp
  have nx: "\<not> fs_exists demo_vault_fs (join [''home'', ''u'', ''Homebase''] ''notes/inbox/zz.md'')"
    by code_simp
  show ?thesis by (rule archive_not_found[OF demo_vault_root demo_ensure v nx])
qed

subsection \<open>Runs of the move command\<close>

lemma validate_join_nonempty:
  "homebase_vault_root env = Inr root \<Longrightarrow> validate_relative_path s = Inr s' \<Longrightarrow> join root s' \<noteq> []"
  using homebase_vault_root_nonempty by (auto simp: validate_relative_path_Inr join_def)

lemma vault_move_note_run:
  assumes root: "homebase_vault_root env = Inr root"
    and ens: "ensure_vault_structure env us root fs = (Inr (), fs1)"
  shows "vault_move_note env us rel td fs =
    (case validate_relative_path rel of
       Inl e \<Rightarrow> (Inl e, fs1)
     | Inr rel' \<Rightarrow>
         if \<not> fs_exists fs1 (join root rel') then (Inl (NotFound ''Note does not exist''), fs1)
         else case validate_relative_path td of
           Inl e \<Rightarrow> (Inl e, fs1)
         | Inr tdr \<Rightarrow>
             if \<not> move_target_allowed (path_to_forward_slashes tdr) then (Inl target_error, fs1)
             else case create_dir_all fs1 (join root tdr) of
               Inl e \<Rightarrow> (Inl (IoError ''Failed to create'' e), fs1)
             | Inr fs2 \<Rightarrow>
                 (case rename fs2 (join root rel') (join root tdr @ [last (join root rel')]) of
                    Inl e \<Rightarrow> (Inl (IoError ''Failed to move note'' e), fs2)
                  | Inr fs3 \<Rightarrow> (relative_from_vault_root env (join root tdr @ [last (join root rel')]), fs3)))"
proof (cases "validate_relative_path rel")
  case (Inr rel')
  then have "join root rel' \<noteq> []" using validate_join_nonempty[OF root] by blast
  with Inr root ens show ?thesis
    by (simp add: vault_move_note_def res_simps Let_def split: sum.splits)
qed (use root ens in \<open>simp add: vault_move_note_def res_simps\<close>)

lemma move_target_prefixes:
  "path_components (''notes/inbox/'' @ t) = [''notes'', ''inbox''] @ path_components t"
  "path_components (''notes/folders/'' @ t) = [''notes'', ''folders''] @ path_components t"
  "path_components (''notes/projects/'' @ t) = [''notes'', ''projects''] @ path_components t"
  "path_components ''notes/inbox'' = [''notes'', ''inbox''] @ []"
  "path_components ''notes/folders'' = [''notes'', ''folders''] @ []"
  "path_components ''notes/projects'' = [''notes'', ''projects''] @ []"
  by (simp_all add: path_components_def Let_def)

lemma move_target_components:
  assumes "move_target_allowed s"
  shows "\<exists>x r. x \<in> {''inbox'', ''folders'', ''projects''} \<and> path_components s = [''notes'', x] @ r"
  using assms unfolding move_target_allowed_def starts_with_iff
  by (elim disjE exE) (simp only: move_target_prefixes, blast)+

subsection \<open>Properties of moving\<close>



text \<open>C30: unlike the creation commands, \<open>vault_move_note\<close> checks its target with the
  separator: when the target has no backslash, a successful move puts the note in
  \<open>notes/inbox\<close>, \<open>notes/folders\<close> or \<open>notes/projects\<close>, or below one of them (spec 3, last
  invariant).\<close>

theorem move_note_confined:
  assumes root: "homebase_vault_root env = Inr root"
    and run: "vault_move_note env us rel td fs = (Inr res, fs')"
    and bs: "CHR 0x5C \<notin> set td"
  shows "\<exists>x r. x \<in> {''inbox'', ''folders'', ''projects''} \<and> join root td = root @ [''notes'', x] @ r"
proof -
  obtain fs1 where ens: "ensure_vault_structure env us root fs = (Inr (), fs1)"
    using run root by (cases "ensure_vault_structure env us root fs")
      (auto simp: vault_move_note_def res_simps split: sum.splits)
  obtain tdr where vt: "validate_relative_path td = Inr tdr"
    using run by (cases "validate_relative_path td")
      (auto simp: vault_move_note_run[OF root ens] split: sum.splits if_splits)
  then have tdr: "tdr = td" and na: "\<not> is_absolute td" by (simp_all add: validate_relative_path_Inr)
  have "move_target_allowed (path_to_forward_slashes td)"
    using run root ens vt tdr
    by (auto simp: vault_move_note_def res_simps Let_def split: sum.splits if_splits)
  then have "move_target_allowed td" using bs by (simp add: path_to_forward_slashes_id)
  then show ?thesis using move_target_components na by (simp add: join_def)
qed

theorem move_note_confined_witness:
  "CHR 0x5C \<notin> set ''notes/folders/x'' \<and>
   (\<exists>x r. x \<in> {''inbox'', ''folders'', ''projects''} \<and>
      join [''home'', ''u'', ''Homebase''] ''notes/folders/x'' = [''home'', ''u'', ''Homebase''] @ [''notes'', x] @ r)"
proof -
  let ?run = "vault_move_note demo_env ''s'' ''notes/inbox/a.md'' ''notes/folders/x'' demo_vault_fs"
  have r: "fst ?run = Inr ''notes/folders/x/a.md''" by code_simp
  then have run: "?run = (Inr ''notes/folders/x/a.md'', snd ?run)" by (metis prod.collapse)
  have bs: "CHR 0x5C \<notin> set ''notes/folders/x''" by simp
  show ?thesis by (intro conjI bs move_note_confined[OF demo_vault_root run bs])
qed


end
