(* ===== verification/Folders.thy ===== *)
theory Folders
  imports Notes "HOL-Library.List_Lexorder"
begin

text \<open>
  The Folder Lifecycle Manager of \<open>vault.rs\<close>: \<open>vault_list_folders\<close> (lines 377--397),
  \<open>vault_create_folder\<close> (lines 399--412), \<open>vault_rename_folder\<close> (lines 414--443) and
  \<open>vault_delete_folder\<close> (lines 445--463). A folder is a directory below
  \<open>notes/folders\<close>; it has no state but its existence on disk. The walk of
  \<open>vault_list_folders\<close> is the list of entries strictly below \<open>notes/folders\<close> in enumeration
  order (\<open>min_depth(1)\<close>), and \<open>folders.sort()\<close> is the library's \<open>sort\<close> in the
  lexicographic order of strings of \<open>List_Lexorder\<close>, which is Rust's byte-wise order of
  \<open>String\<close>s. The emptiness test of \<open>vault_delete_folder\<close> is \<open>walk_next_is_some\<close>.
\<close>

fun collect_folders :: "sysenv \<Rightarrow> (path \<times> node) list \<Rightarrow> vault_error + string list" where
  "collect_folders env [] = Inr []"
| "collect_folders env ((p, File c t) # es) = collect_folders env es"
| "collect_folders env ((p, Dir) # es) =
     (case relative_from_vault_root env p of
        Inl e \<Rightarrow> Inl e
      | Inr rel \<Rightarrow>
          (case collect_folders env es of
             Inl e \<Rightarrow> Inl e
           | Inr folders \<Rightarrow> Inr (rel # folders)))"

definition vault_list_folders :: "sysenv \<Rightarrow> string \<Rightarrow> (fs, string list) res" where
  "vault_list_folders env us =
     bindE (liftE (homebase_vault_root env)) (\<lambda>vault_root.
     bindE (ensure_vault_structure env us vault_root) (\<lambda>_.
     bindE (getsE (\<lambda>fs. collect_folders env (descendants fs (join vault_root ''notes/folders'')))) (\<lambda>r.
     bindE (liftE r) (\<lambda>folders. returnE (sort folders)))))"

definition folder_error :: vault_error where
  "folder_error = InvalidArgument ''Folder path must start with notes/folders/''"

definition vault_create_folder :: "sysenv \<Rightarrow> string \<Rightarrow> string \<Rightarrow> (fs, unit) res" where
  "vault_create_folder env us relative_path =
     bindE (liftE (homebase_vault_root env)) (\<lambda>vault_root.
     bindE (ensure_vault_structure env us vault_root) (\<lambda>_.
     bindE (liftE (validate_relative_path relative_path)) (\<lambda>rel.
     if \<not> starts_with (path_to_forward_slashes rel) ''notes/folders/'' then throwE folder_error
     else io ''Failed to create folder'' (\<lambda>fs. create_dir_all fs (join vault_root rel)))))"

text \<open>The checks of the new name, in the order of the code.\<close>

definition check_folder_name :: "string \<Rightarrow> vault_error + unit" where
  "check_folder_name to_name =
     (if trim to_name = [] then Inl (InvalidArgument ''New name cannot be empty'')
      else if CHR ''/'' \<in> set to_name \<or> CHR 0x5C \<in> set to_name
      then Inl (InvalidArgument ''New name must not contain path separators'')
      else if trim to_name = ''.'' \<or> trim to_name = ''..'' then Inl (InvalidArgument ''Invalid folder name'')
      else Inr ())"

definition vault_rename_folder :: "sysenv \<Rightarrow> string \<Rightarrow> string \<Rightarrow> string \<Rightarrow> (fs, string) res" where
  "vault_rename_folder env us from_relative_path to_name =
     bindE (liftE (homebase_vault_root env)) (\<lambda>vault_root.
     bindE (ensure_vault_structure env us vault_root) (\<lambda>_.
     bindE (liftE (validate_relative_path from_relative_path)) (\<lambda>from_rel.
     if \<not> starts_with (path_to_forward_slashes from_rel) ''notes/folders/'' then throwE folder_error
     else bindE (liftE (check_folder_name to_name)) (\<lambda>_.
       let from_full = join vault_root from_rel in
       if from_full = [] then throwE (InvalidArgument ''Invalid folder path'')
       else
         let to_full = join (butlast from_full) to_name in
         bindE (io ''Failed to rename folder'' (\<lambda>fs. rename fs from_full to_full)) (\<lambda>_.
         liftE (relative_from_vault_root env to_full))))))"

definition vault_delete_folder :: "sysenv \<Rightarrow> string \<Rightarrow> string \<Rightarrow> (fs, unit) res" where
  "vault_delete_folder env us relative_path =
     bindE (liftE (homebase_vault_root env)) (\<lambda>vault_root.
     bindE (ensure_vault_structure env us vault_root) (\<lambda>_.
     bindE (liftE (validate_relative_path relative_path)) (\<lambda>rel.
     if \<not> starts_with (path_to_forward_slashes rel) ''notes/folders/'' then throwE folder_error
     else
       let full = join vault_root rel in
       bindE (getsE (\<lambda>fs. walk_next_is_some fs full)) (\<lambda>nonempty.
       if nonempty then throwE NotEmpty
       else io ''Failed to delete folder'' (\<lambda>fs. remove_dir fs full)))))"

text \<open>The demo vault with the folders \<open>b\<close> and \<open>a\<close>, the latter holding a note.\<close>

abbreviation demo_folders_fs :: fs where
  "demo_folders_fs \<equiv> demo_vault_fs @
     [([''home'', ''u'', ''Homebase'', ''notes'', ''folders'', ''b''], Dir),
      ([''home'', ''u'', ''Homebase'', ''notes'', ''folders'', ''a''], Dir),
      ([''home'', ''u'', ''Homebase'', ''notes'', ''folders'', ''a'', ''z.md''], File [] 1)]"

subsection \<open>The listing\<close>

lemma collect_folders_mem:
  "collect_folders env walk = Inr folders \<Longrightarrow>
   x \<in> set folders \<longleftrightarrow> (\<exists>p. (p, Dir) \<in> set walk \<and> relative_from_vault_root env p = Inr x)"
proof (induction env walk arbitrary: folders rule: collect_folders.induct)
  case (3 env p es)
  then show ?case by (auto split: sum.splits)
qed auto

lemma join_folders: "join root ''notes/folders'' = root @ [''notes'', ''folders'']"
  by (simp add: join_def is_absolute_def path_components_def)

lemma vault_list_folders_Inr:
  "vault_list_folders env us fs = (Inr res, fs') \<longleftrightarrow>
   (\<exists>root folders. homebase_vault_root env = Inr root \<and> ensure_vault_structure env us root fs = (Inr (), fs') \<and>
      collect_folders env (descendants fs' (root @ [''notes'', ''folders''])) = Inr folders \<and>
      res = sort folders)"
  by (auto simp: vault_list_folders_def res_simps join_folders split: sum.splits prod.splits)

lemma strict_prefix_append_iff:
  "strict_prefix (root @ xs) p \<longleftrightarrow> (\<exists>r. r \<noteq> [] \<and> p = root @ xs @ r)"
  by (auto simp: strict_prefix_def prefix_def)

lemma vault_list_folders_mem:
  assumes wf: "wf_fs fs" and run: "vault_list_folders env us fs = (Inr res, fs')"
    and root: "homebase_vault_root env = Inr root"
  shows "x \<in> set res \<longleftrightarrow>
    (\<exists>r. r \<noteq> [] \<and> map_of fs' (root @ [''notes'', ''folders''] @ r) = Some Dir \<and>
       x = path_to_forward_slashes (path_to_string ([''notes'', ''folders''] @ r)))"
proof -
  obtain folders where ens: "ensure_vault_structure env us root fs = (Inr (), fs')"
    and col: "collect_folders env (descendants fs' (root @ [''notes'', ''folders''])) = Inr folders"
    and res: "res = sort folders"
    using run root by (auto simp: vault_list_folders_Inr)
  have "wf_fs fs'" using keepsD[OF keeps_wf_ensure_vault_structure wf ens] .
  then have d: "distinct (map fst fs')" by (simp add: wf_fs_def)
  have rel: "\<And>r. relative_from_vault_root env (root @ [''notes'', ''folders''] @ r) =
      Inr (path_to_forward_slashes (path_to_string ([''notes'', ''folders''] @ r)))"
    using relative_from_vault_root_append[OF root] by simp
  show ?thesis
    unfolding res set_sort collect_folders_mem[OF col] mem_descendants[OF d] strict_prefix_append_iff
    using rel by auto
qed

subsection \<open>Runs of the commands\<close>

lemma vault_delete_folder_run:
  assumes root: "homebase_vault_root env = Inr root"
    and ens: "ensure_vault_structure env us root fs = (Inr (), fs1)"
  shows "vault_delete_folder env us rel fs =
    (case validate_relative_path rel of
       Inl e \<Rightarrow> (Inl e, fs1)
     | Inr rel' \<Rightarrow>
         if \<not> starts_with (path_to_forward_slashes rel') ''notes/folders/'' then (Inl folder_error, fs1)
         else if walk_next_is_some fs1 (join root rel') then (Inl NotEmpty, fs1)
         else case remove_dir fs1 (join root rel') of
           Inl e \<Rightarrow> (Inl (IoError ''Failed to delete folder'' e), fs1)
         | Inr fs2 \<Rightarrow> (Inr (), fs2))"
  using root ens by (simp add: vault_delete_folder_def res_simps Let_def split: sum.splits)

lemma check_folder_name_ok:
  "check_folder_name to_name = Inr () \<Longrightarrow> join base to_name = base @ [to_name]"
proof -
  assume ok: "check_folder_name to_name = Inr ()"
  then have ne: "trim to_name \<noteq> []" and sl: "CHR ''/'' \<notin> set to_name" and dot: "trim to_name \<noteq> ''.''"
    by (auto simp: check_folder_name_def split: if_splits)
  have "to_name \<noteq> []" using ne by (auto simp: trim_def)
  moreover have "to_name \<noteq> ''.''" using dot by (auto simp: trim_def is_whitespace_def)
  moreover have "\<not> is_absolute to_name" using sl by (cases to_name) (auto simp: is_absolute_def)
  ultimately show ?thesis using sl by (simp add: join_def path_components_name_single)
qed

subsection \<open>Properties of the folder commands\<close>

text \<open>C32: \<open>vault_list_folders\<close> returns, in ascending byte-wise order, exactly the
  relative paths of the directories strictly below \<open>notes/folders\<close>, at any depth; plain
  files are not listed (spec 4.5).\<close>

theorem list_folders_exact:
  assumes "wf_fs fs" "vault_list_folders env us fs = (Inr res, fs')" "homebase_vault_root env = Inr root"
  shows "sorted res \<and>
    (x \<in> set res \<longleftrightarrow>
      (\<exists>r. r \<noteq> [] \<and> map_of fs' (root @ [''notes'', ''folders''] @ r) = Some Dir \<and>
         x = path_to_forward_slashes (path_to_string ([''notes'', ''folders''] @ r))))"
proof -
  have "sorted res" using assms(2) by (auto simp: vault_list_folders_Inr)
  then show ?thesis using vault_list_folders_mem[OF assms] by simp
qed


theorem list_folders_exact_witness:
  "sorted [''notes/folders/a'', ''notes/folders/b''] \<and>
   (\<exists>r. r \<noteq> [] \<and> map_of demo_folders_fs ([''home'', ''u'', ''Homebase''] @ [''notes'', ''folders''] @ r) = Some Dir \<and>
      ''notes/folders/a'' = path_to_forward_slashes (path_to_string ([''notes'', ''folders''] @ r)))"
proof -
  have wf: "wf_fs demo_folders_fs" by (simp add: wf_fs_def fs_eval)
  have run: "vault_list_folders demo_env ''s'' demo_folders_fs =
      (Inr [''notes/folders/a'', ''notes/folders/b''], demo_folders_fs)" by code_simp
  show ?thesis using list_folders_exact[OF wf run demo_vault_root, of "''notes/folders/a''"] by simp
qed


text \<open>C34: deleting a folder that holds any entry, at any depth, fails with
  \<open>NotEmpty\<close> and removes nothing (spec 4.5, 8).\<close>

theorem delete_folder_not_empty:
  assumes root: "homebase_vault_root env = Inr root"
    and ens: "ensure_vault_structure env us root fs = (Inr (), fs1)"
    and v: "validate_relative_path rel = Inr rel"
    and pre: "starts_with (path_to_forward_slashes rel) ''notes/folders/''"
    and hc: "has_children fs1 (join root rel)"
  shows "vault_delete_folder env us rel fs = (Inl NotEmpty, fs1)"
  using root ens v pre hc
  by (simp add: vault_delete_folder_def res_simps Let_def walk_next_is_some_def)

theorem delete_folder_not_empty_witness:
  "vault_delete_folder demo_env ''s'' ''notes/folders/a'' demo_folders_fs = (Inl NotEmpty, demo_folders_fs)"
proof -
  have e: "ensure_vault_structure demo_env ''s'' [''home'', ''u'', ''Homebase''] demo_folders_fs =
    (Inr (), demo_folders_fs)" by code_simp
  have v: "validate_relative_path ''notes/folders/a'' = Inr ''notes/folders/a''" by code_simp
  have p: "starts_with (path_to_forward_slashes ''notes/folders/a'') ''notes/folders/''" by code_simp
  have h: "has_children demo_folders_fs (join [''home'', ''u'', ''Homebase''] ''notes/folders/a'')" by code_simp
  show ?thesis by (rule delete_folder_not_empty[OF demo_vault_root e v p h])
qed



text \<open>C36: a new folder name that is blank, holds a path separator (\<open>/\<close> or a
  backslash), or is \<open>.\<close> or \<open>..\<close> after trimming is rejected with \<open>InvalidArgument\<close>
  before anything is renamed (spec 4.5).\<close>

theorem rename_folder_rejects_bad_names:
  assumes root: "homebase_vault_root env = Inr root"
    and ens: "ensure_vault_structure env us root fs = (Inr (), fs1)"
    and v: "validate_relative_path from = Inr from"
    and pre: "starts_with (path_to_forward_slashes from) ''notes/folders/''"
    and bad: "trim to_name = [] \<or> CHR ''/'' \<in> set to_name \<or> CHR 0x5C \<in> set to_name \<or>
      trim to_name = ''.'' \<or> trim to_name = ''..''"
  shows "\<exists>m. vault_rename_folder env us from to_name fs = (Inl (InvalidArgument m), fs1)"
proof -
  have "\<exists>m. check_folder_name to_name = Inl (InvalidArgument m)"
    using bad unfolding check_folder_name_def by auto
  then obtain m where "check_folder_name to_name = Inl (InvalidArgument m)" ..
  then show ?thesis using root ens v pre by (simp add: vault_rename_folder_def res_simps)
qed

theorem rename_folder_rejects_bad_names_witness:
  "\<exists>m. vault_rename_folder demo_env ''s'' ''notes/folders/a'' '' .. '' demo_folders_fs =
     (Inl (InvalidArgument m), demo_folders_fs)"
proof -
  have e: "ensure_vault_structure demo_env ''s'' [''home'', ''u'', ''Homebase''] demo_folders_fs =
    (Inr (), demo_folders_fs)" by code_simp
  have v: "validate_relative_path ''notes/folders/a'' = Inr ''notes/folders/a''" by code_simp
  have p: "starts_with (path_to_forward_slashes ''notes/folders/a'') ''notes/folders/''" by code_simp
  have b: "trim '' .. '' = [] \<or> CHR ''/'' \<in> set '' .. '' \<or> CHR 0x5C \<in> set '' .. '' \<or>
      trim '' .. '' = ''.'' \<or> trim '' .. '' = ''..''" by code_simp
  show ?thesis by (rule rename_folder_rejects_bad_names[OF demo_vault_root e v p b])
qed

subsection \<open>Behaviour at the edges\<close>

text \<open>A folder that does not exist is reported as not empty: the walk's first item is
  the error of the missing directory, and \<open>next().is_some()\<close> holds.\<close>

lemma delete_missing_folder_not_empty:
  "fst (vault_delete_folder demo_env ''s'' ''notes/folders/nope'' demo_vault_fs) = Inl NotEmpty"
  by code_simp

text \<open>The prefix check accepts \<open>notes/folders/\<close> itself, whose parent is \<open>notes\<close>: renaming
  it moves the whole folder tree to \<open>notes/<name>\<close>.\<close>

lemma rename_folders_root:
  "fst (vault_rename_folder demo_env ''s'' ''notes/folders/'' ''x'' demo_folders_fs) = Inr ''notes/x'' \<and>
   map_of (snd (vault_rename_folder demo_env ''s'' ''notes/folders/'' ''x'' demo_folders_fs))
     [''home'', ''u'', ''Homebase'', ''notes'', ''x'', ''a'', ''z.md''] = Some (File [] 1)"
  by code_simp

end
