(* ===== verification/JsonParse.thy ===== *)
theory JsonParse
  imports Json
begin

text \<open>
  The part of \<open>serde_json::from_str\<close> that \<open>read_project_meta\<close> relies on: a JSON text
  holding one object whose member values are strings. Whitespace (space, tab, line feed,
  carriage return) may surround every token; a string may hold the escapes \<open>\"\<close>,
  \<open>\\\<close>, \<open>\/\<close>, \<open>\b\<close>, \<open>\f\<close>, \<open>\n\<close>, \<open>\r\<close>, \<open>\t\<close> and \<open>\uXXXX\<close> (decoded to UTF-8
  bytes), but no raw control character; nothing but whitespace may follow the object.
  Values of other kinds (numbers, nested objects) and surrogate pairs in \<open>\u\<close> escapes
  are not covered and count as malformed here. The printer of \<open>Json\<close> is this parser's
  inverse (the round trip below).
\<close>

definition is_json_ws :: "char \<Rightarrow> bool" where
  "is_json_ws c \<longleftrightarrow> c = CHR '' '' \<or> c = CHR 0x09 \<or> c = CHR 0x0A \<or> c = CHR 0x0D"

definition skip_ws :: "string \<Rightarrow> string" where
  "skip_ws s = dropWhile is_json_ws s"

definition hex_value :: "char \<Rightarrow> nat option" where
  "hex_value c =
     (let n = of_char c :: nat in
      if 48 \<le> n \<and> n \<le> 57 then Some (n - 48)
      else if 97 \<le> n \<and> n \<le> 102 then Some (n - 87)
      else if 65 \<le> n \<and> n \<le> 70 then Some (n - 55)
      else None)"

definition hex4 :: "char \<Rightarrow> char \<Rightarrow> char \<Rightarrow> char \<Rightarrow> nat option" where
  "hex4 a b c d =
     (case (hex_value a, hex_value b, hex_value c, hex_value d) of
        (Some w, Some x, Some y, Some z) \<Rightarrow> Some (((w * 16 + x) * 16 + y) * 16 + z)
      | _ \<Rightarrow> None)"

text \<open>The UTF-8 bytes of a code point of the Basic Multilingual Plane.\<close>

definition utf8_encode :: "nat \<Rightarrow> string" where
  "utf8_encode cp =
     (if cp < 128 then [char_of cp]
      else if cp < 2048 then [char_of (192 + cp div 64), char_of (128 + cp mod 64)]
      else [char_of (224 + cp div 4096), char_of (128 + (cp div 64) mod 64), char_of (128 + cp mod 64)])"

definition simple_escape :: "char \<Rightarrow> char option" where
  "simple_escape e =
     (if e = CHR 0x22 then Some (CHR 0x22) else if e = CHR 0x5C then Some (CHR 0x5C)
      else if e = CHR ''/'' then Some (CHR ''/'') else if e = CHR ''b'' then Some (CHR 0x08)
      else if e = CHR ''f'' then Some (CHR 0x0C) else if e = CHR ''n'' then Some (CHR 0x0A)
      else if e = CHR ''r'' then Some (CHR 0x0D) else if e = CHR ''t'' then Some (CHR 0x09)
      else None)"

text \<open>The characters of a string after its opening quote, up to the closing quote: the
  decoded contents and the text after the quote.\<close>

fun string_body :: "string \<Rightarrow> (string \<times> string) option" where
  "string_body [] = None"
| "string_body (c # cs) =
     (if c = CHR 0x22 then Some ([], cs)
      else if c = CHR 0x5C then
        (case cs of
           [] \<Rightarrow> None
         | e # cs' \<Rightarrow>
             (case simple_escape e of
                Some d \<Rightarrow> map_option (\<lambda>(s, r). (d # s, r)) (string_body cs')
              | None \<Rightarrow>
                  if e = CHR ''u'' then
                    (case cs' of
                       a # b # x # y # cs'' \<Rightarrow>
                         (case hex4 a b x y of
                            Some cp \<Rightarrow>
                              if 55296 \<le> cp \<and> cp < 57344 then None
                              else map_option (\<lambda>(s, r). (utf8_encode cp @ s, r)) (string_body cs'')
                          | None \<Rightarrow> None)
                     | _ \<Rightarrow> None)
                  else None))
      else if of_char c < (32::nat) then None
      else map_option (\<lambda>(s, r). (c # s, r)) (string_body cs))"

definition parse_string :: "string \<Rightarrow> (string \<times> string) option" where
  "parse_string s = (case s of c # cs \<Rightarrow> if c = CHR 0x22 then string_body cs else None | [] \<Rightarrow> None)"

text \<open>The members of an object after its opening brace (there is at least one), up to
  the closing brace: key and value of each, and the text after the brace.\<close>

function parse_members :: "string \<Rightarrow> ((string \<times> string) list \<times> string) option" where
  "parse_members s =
     (case parse_string (skip_ws s) of
        None \<Rightarrow> None
      | Some (k, r1) \<Rightarrow>
          (case skip_ws r1 of
             [] \<Rightarrow> None
           | c # r2 \<Rightarrow>
               if c \<noteq> CHR '':'' then None
               else
                 (case parse_string (skip_ws r2) of
                    None \<Rightarrow> None
                  | Some (v, r3) \<Rightarrow>
                      (case skip_ws r3 of
                         [] \<Rightarrow> None
                       | d # r4 \<Rightarrow>
                           if d = CHR '','' then map_option (\<lambda>(ms, r). ((k, v) # ms, r)) (parse_members r4)
                           else if d = CHR ''}'' then Some ([(k, v)], r4)
                           else None))))"
  by pat_completeness auto
termination
proof (relation "measure length")
  have body: "string_body s = Some (v, r) \<Longrightarrow> length r < length s" for s v r
  proof (induction s arbitrary: v r rule: string_body.induct)
    case (2 c cs)
    show ?case
    proof (cases "c = CHR 0x22 \<or> c \<noteq> CHR 0x5C")
      case True
      with "2.prems" "2.IH"(3) show ?thesis
        by (cases "string_body cs") (auto split: if_splits)
    next
      case False
      then have bs: "c = CHR 0x5C" "c \<noteq> CHR 0x22" by auto
      with "2.prems" obtain e cs' where cs: "cs = e # cs'" by (cases cs) auto
      show ?thesis
      proof (cases "simple_escape e")
        case (Some d)
        with "2.prems" bs cs "2.IH"(2)[OF bs(2) bs(1) cs Some] show ?thesis
          by (cases "string_body cs'") auto
      next
        case None
        with "2.prems" bs cs obtain a b x y cs'' cp where cs': "cs' = a # b # x # y # cs''"
          and u: "e = CHR ''u''" and h: "hex4 a b x y = Some cp" and ns: "\<not> (55296 \<le> cp \<and> cp < 57344)"
          by (auto split: if_splits list.splits option.splits)
        with "2.prems" bs cs None "2.IH"(1)[OF bs(2) bs(1) cs None u cs' refl refl refl h ns] show ?thesis
          by (cases "string_body cs''") auto
      qed
    qed
  qed simp
  have str: "parse_string s = Some (v, r) \<Longrightarrow> length r < length s" for s v r
    using body[of "tl s" v r] by (auto simp: parse_string_def split: list.splits if_splits)
  have ws: "length (skip_ws s) \<le> length s" for s by (simp add: skip_ws_def length_dropWhile_le)
  fix s x k r1 c r2 y v r3 d r4
  assume a: "parse_string (skip_ws s) = Some x" "(k, r1) = x" "skip_ws r1 = c # r2"
    "parse_string (skip_ws r2) = Some y" "(v, r3) = y" "skip_ws r3 = d # r4"
  have l1: "length r1 < length s" using str[of "skip_ws s" k r1] ws[of s] a(1,2) by simp
  have l2: "length r2 < length r1" using ws[of r1] a(3) by simp
  have l3: "length r3 < length r2" using str[of "skip_ws r2" v r3] ws[of r2] a(4,5) by simp
  have l4: "length r4 < length r3" using ws[of r3] a(6) by simp
  from l1 l2 l3 l4 have "length r4 < length s" by linarith
  then show "(r4, s) \<in> measure length" by simp
qed simp

declare parse_members.simps [simp del]

definition parse_object :: "string \<Rightarrow> (string \<times> string) list option" where
  "parse_object raw =
     (case skip_ws raw of
        [] \<Rightarrow> None
      | c # r \<Rightarrow>
          if c \<noteq> CHR ''{'' then None
          else
            let res = (case skip_ws r of
                         [] \<Rightarrow> None
                       | c2 # r2 \<Rightarrow> if c2 = CHR ''}'' then Some ([], r2) else parse_members r)
            in case res of
                 None \<Rightarrow> None
               | Some (ms, rest) \<Rightarrow> if skip_ws rest = [] then Some ms else None)"


subsection \<open>The printer is the parser's inverse\<close>

lemma hex_value_hex_digit: "n < 16 \<Longrightarrow> hex_value (hex_digit n) = Some n"
  by (auto simp: hex_value_def hex_digit_def Let_def)

lemma control_char_code:
  assumes "of_char c < (32::nat)"
  shows "hex4 (CHR ''0'') (CHR ''0'') (hex_digit (of_char c div 16)) (hex_digit (of_char c mod 16)) =
           Some (of_char c)"
proof -
  have d: "of_char c div 16 < (16::nat)" using assms by linarith
  have m: "of_char c mod 16 < (16::nat)" by simp
  have z: "hex_value (CHR ''0'') = Some 0" by (simp add: hex_value_def)
  have "(of_char c div 16) * 16 + of_char c mod 16 = (of_char c :: nat)" by simp
  then show ?thesis
    by (simp add: hex4_def hex_value_hex_digit[OF d] hex_value_hex_digit[OF m] z)
qed

lemma escape_char_body:
  "string_body (escape_char c @ t) = map_option (\<lambda>(s, r). (c # s, r)) (string_body t)"
proof -
  consider "c = CHR 0x22" | "c = CHR 0x5C" | "c = CHR 0x0A" | "c = CHR 0x0D" | "c = CHR 0x09"
    | "c = CHR 0x08" | "c = CHR 0x0C"
    | "c \<notin> {CHR 0x22, CHR 0x5C, CHR 0x0A, CHR 0x0D, CHR 0x09, CHR 0x08, CHR 0x0C}" "of_char c < (32::nat)"
    | "c \<notin> {CHR 0x22, CHR 0x5C, CHR 0x0A, CHR 0x0D, CHR 0x09, CHR 0x08, CHR 0x0C}" "\<not> of_char c < (32::nat)"
    by blast
  then show ?thesis
  proof cases
    case 8
    then show ?thesis
      by (simp add: escape_char_def simple_escape_def control_char_code utf8_encode_def)
  next
    case 9
    moreover have "c \<noteq> CHR 0x22 \<and> c \<noteq> CHR 0x5C" using 9 by simp
    ultimately show ?thesis by (simp add: escape_char_def)
  qed (simp_all add: escape_char_def simple_escape_def)
qed

lemma string_body_escaped:
  "string_body (concat (map escape_char s) @ CHR 0x22 # rest) = Some (s, rest)"
  by (induction s) (simp_all add: escape_char_body)

lemma parse_string_json_string: "parse_string (json_string s @ rest) = Some (s, rest)"
  by (simp add: parse_string_def json_string_def string_body_escaped)


lemma skip_ws_Cons: "skip_ws (c # t) = (if is_json_ws c then skip_ws t else c # t)"
  by (simp add: skip_ws_def)

lemma skip_ws_Nil: "skip_ws [] = []"
  by (simp add: skip_ws_def)

lemma skip_ws_json_string: "skip_ws (json_string s @ t) = json_string s @ t"
  by (simp add: skip_ws_def json_string_def is_json_ws_def)

lemma parse_members_pretty:
  "ms \<noteq> [] \<Longrightarrow>
   parse_members (pretty_members (map (\<lambda>(k, v). (k, JStr v)) ms) @ [CHR 0x0A, CHR ''}''] @ rest) =
     Some (ms, rest)"
proof (induction ms)
  case (Cons m ms)
  obtain k v where m: "m = (k, v)" by fastforce
  show ?case
  proof (cases "ms = []")
    case True
    then show ?thesis
      by (subst parse_members.simps)
        (simp add: m skip_ws_Cons is_json_ws_def skip_ws_json_string parse_string_json_string)
  next
    case False
    then show ?thesis
      using Cons.IH
      by (subst parse_members.simps)
        (simp add: m skip_ws_Cons is_json_ws_def skip_ws_json_string parse_string_json_string)
  qed
qed simp

text \<open>Printing a flat object of strings and parsing it back gives its members.\<close>

lemma parse_object_pretty:
  "parse_object (to_string_pretty (map (\<lambda>(k, v). (k, JStr v)) ms)) = Some ms"
proof (cases ms)
  case Nil
  then show ?thesis by (simp add: parse_object_def to_string_pretty_def skip_ws_Cons is_json_ws_def skip_ws_Nil)
next
  case (Cons m ms')
  obtain k v where m: "m = (k, v)" by fastforce
  have "parse_members (pretty_members (map (\<lambda>(k, v). (k, JStr v)) ms) @ [CHR 0x0A, CHR ''}''] @ []) =
     Some (ms, [])"
    using parse_members_pretty Cons by blast
  moreover obtain t where "json_string k = CHR 0x22 # t" by (simp add: json_string_def)
  ultimately show ?thesis
    using Cons by (simp add: m parse_object_def to_string_pretty_def skip_ws_Cons is_json_ws_def
        skip_ws_json_string skip_ws_Nil)
qed

end
