(* ===== verification/Projects.thy ===== *)
theory Projects
  imports NoteCreate JsonParse "HOL-Library.List_Lexorder"
begin

text \<open>
  The Project Lifecycle Manager of \<open>vault.rs\<close> (lines 465--654): the sidecar record
  \<open>ProjectMeta\<close> and its reading and writing (\<open>read_project_meta\<close>,
  \<open>write_project_meta\<close>), the scan of \<open>notes/projects\<close> (\<open>list_projects_internal\<close>), and
  the commands \<open>vault_list_projects\<close>, \<open>vault_create_project\<close> and
  \<open>vault_update_project\<close>. A project is a directory below \<open>notes/projects\<close> holding a
  \<open>.project.json\<close>; its identity is the \<open>id\<close> of the sidecar. The sidecar is written by
  \<open>serde_json::to_string_pretty\<close> (the printer of \<open>Json\<close>, fields in declaration order)
  and read by \<open>serde_json::from_str\<close> (the parser of \<open>JsonParse\<close>): the derived
  \<open>Deserialize\<close> wants each of the five fields exactly once, as a string, and ignores
  other members. The random values are parameters: \<open>us\<close> the temporary-file UUID of the
  bootstrap, \<open>uid\<close> the new project's id, \<open>ush\<close> the UUID whose simple form gives the
  six-character suffix of a colliding directory, \<open>u\<close> the temporary-file UUID of the
  sidecar write. \<open>str::to_lowercase\<close> of the sort key is the ASCII lower-casing of
  \<open>Slug\<close>, which it is on ASCII names.
\<close>

record project_meta =
  meta_id :: string
  meta_name :: string
  meta_status :: string
  meta_created :: string
  meta_modified :: string

record project_info =
  info_id :: string
  info_name :: string
  info_status :: string
  info_created :: string
  info_modified :: string
  info_folder_relative_path :: string

record update_project_args =
  upd_id :: string
  upd_name :: "string option"
  upd_status :: "string option"

text \<open>The members \<open>#[derive(Serialize)]\<close> gives a \<open>ProjectMeta\<close>, in declaration order
  (the camel-case renaming changes none of the names).\<close>

definition meta_fields :: "project_meta \<Rightarrow> (string \<times> string) list" where
  "meta_fields m =
     [(''id'', meta_id m), (''name'', meta_name m), (''status'', meta_status m),
      (''created'', meta_created m), (''modified'', meta_modified m)]"

definition project_meta_json :: "project_meta \<Rightarrow> string" where
  "project_meta_json m = to_string_pretty (map (\<lambda>(k, v). (k, JStr v)) (meta_fields m))"

text \<open>A field of the derived \<open>Deserialize\<close>: missing or duplicated, it is an error.\<close>

definition field_once :: "string \<Rightarrow> (string \<times> string) list \<Rightarrow> string option" where
  "field_once k ms = (case filter (\<lambda>(k', v). k' = k) ms of [(_, v)] \<Rightarrow> Some v | _ \<Rightarrow> None)"

definition meta_of_members :: "(string \<times> string) list \<Rightarrow> project_meta option" where
  "meta_of_members ms =
     (case (field_once ''id'' ms, field_once ''name'' ms, field_once ''status'' ms,
            field_once ''created'' ms, field_once ''modified'' ms) of
        (Some i, Some n, Some s, Some c, Some m) \<Rightarrow>
          Some \<lparr>meta_id = i, meta_name = n, meta_status = s, meta_created = c, meta_modified = m\<rparr>
      | _ \<Rightarrow> None)"

definition read_project_meta :: "fs \<Rightarrow> path \<Rightarrow> vault_error + project_meta" where
  "read_project_meta fs path =
     (case read_to_string fs path of
        Inl e \<Rightarrow> Inl (IoError ''Failed to read'' e)
      | Inr raw \<Rightarrow>
          (case parse_object raw of
             None \<Rightarrow> Inl (InvalidJson ''Invalid JSON'')
           | Some ms \<Rightarrow> (case meta_of_members ms of
                          None \<Rightarrow> Inl (InvalidJson ''Invalid JSON'')
                        | Some m \<Rightarrow> Inr m)))"

definition write_project_meta :: "nat \<Rightarrow> string \<Rightarrow> path \<Rightarrow> project_meta \<Rightarrow> (fs, unit) res" where
  "write_project_meta t u path meta = write_atomic t u path (project_meta_json meta)"

text \<open>The loop of \<open>list_projects_internal\<close> over the entries of \<open>notes/projects\<close>: what
  is not a directory, and a directory without a sidecar, are skipped; a sidecar that does
  not read aborts the scan.\<close>

fun collect_projects :: "fs \<Rightarrow> (path \<times> node) list \<Rightarrow> vault_error + (path \<times> project_meta) list" where
  "collect_projects fs [] = Inr []"
| "collect_projects fs ((p, File c t) # es) = collect_projects fs es"
| "collect_projects fs ((p, Dir) # es) =
     (let meta_path = join p ''.project.json'' in
      if \<not> fs_exists fs meta_path then collect_projects fs es
      else case read_project_meta fs meta_path of
        Inl e \<Rightarrow> Inl e
      | Inr meta \<Rightarrow>
          (case collect_projects fs es of
             Inl e \<Rightarrow> Inl e
           | Inr out \<Rightarrow> Inr ((p, meta) # out)))"

definition list_projects_internal :: "path \<Rightarrow> fs \<Rightarrow> vault_error + (path \<times> project_meta) list" where
  "list_projects_internal vault_root fs =
     (let projects_root = join vault_root ''notes/projects'' in
      case read_dir fs projects_root of
        Inl e \<Rightarrow> Inl (IoError ''Failed to read'' e)
      | Inr es \<Rightarrow> collect_projects fs es)"

definition project_info_of :: "project_meta \<Rightarrow> string \<Rightarrow> project_info" where
  "project_info_of meta rel =
     \<lparr>info_id = meta_id meta, info_name = meta_name meta, info_status = meta_status meta,
      info_created = meta_created meta, info_modified = meta_modified meta,
      info_folder_relative_path = rel\<rparr>"

fun project_infos :: "sysenv \<Rightarrow> (path \<times> project_meta) list \<Rightarrow> vault_error + project_info list" where
  "project_infos env [] = Inr []"
| "project_infos env ((folder_path, meta) # ps) =
     (case relative_from_vault_root env folder_path of
        Inl e \<Rightarrow> Inl e
      | Inr rel \<Rightarrow>
          (case project_infos env ps of
             Inl e \<Rightarrow> Inl e
           | Inr infos \<Rightarrow> Inr (project_info_of meta rel # infos)))"

definition to_lowercase :: "string \<Rightarrow> string" where
  "to_lowercase s = map to_ascii_lowercase s"

definition sort_by_name :: "project_info list \<Rightarrow> project_info list" where
  "sort_by_name projects = sort_key (\<lambda>p. to_lowercase (info_name p)) projects"

definition vault_list_projects :: "sysenv \<Rightarrow> string \<Rightarrow> (fs, project_info list) res" where
  "vault_list_projects env us =
     bindE (liftE (homebase_vault_root env)) (\<lambda>vault_root.
     bindE (ensure_vault_structure env us vault_root) (\<lambda>_.
     bindE (getsE (list_projects_internal vault_root)) (\<lambda>r.
     bindE (liftE r) (\<lambda>ps.
     bindE (liftE (project_infos env ps)) (\<lambda>projects.
       returnE (sort_by_name projects))))))"

text \<open>\<open>&Uuid::new_v4().simple().to_string()[..6]\<close>.\<close>

definition short_suffix :: "string \<Rightarrow> string" where
  "short_suffix ush = take 6 (uuid_simple ush)"

definition vault_create_project ::
  "sysenv \<Rightarrow> string \<Rightarrow> string \<Rightarrow> string \<Rightarrow> string \<Rightarrow> string \<Rightarrow> (fs, project_info) res" where
  "vault_create_project env us uid ush u name =
     bindE (liftE (homebase_vault_root env)) (\<lambda>vault_root.
     bindE (ensure_vault_structure env us vault_root) (\<lambda>_.
     let now = utc_now env;
         base_slug = slugify name;
         projects_root = join vault_root ''notes/projects''
     in bindE (getsE (\<lambda>fs. fs_exists fs (join projects_root base_slug))) (\<lambda>exists.
       let folder_name = (if exists then base_slug @ ''-'' @ short_suffix ush else base_slug);
           folder_path = join projects_root folder_name
       in bindE (io ''Failed to create project'' (\<lambda>fs. create_dir_all fs folder_path)) (\<lambda>_.
         let meta = \<lparr>meta_id = uid, meta_name = name, meta_status = ''active'',
                     meta_created = now, meta_modified = now\<rparr>
         in bindE (write_project_meta (clock_ms env) u (join folder_path ''.project.json'') meta) (\<lambda>_.
           bindE (liftE (relative_from_vault_root env folder_path)) (\<lambda>rel.
             returnE (project_info_of meta rel)))))))"

text \<open>The fields an update sets: the supplied name and status, and always the
  modification time.\<close>

definition updated_meta :: "sysenv \<Rightarrow> update_project_args \<Rightarrow> project_meta \<Rightarrow> project_meta" where
  "updated_meta env args meta =
     (let meta = (case upd_name args of Some name \<Rightarrow> meta\<lparr>meta_name := name\<rparr> | None \<Rightarrow> meta);
          meta = (case upd_status args of Some status \<Rightarrow> meta\<lparr>meta_status := status\<rparr> | None \<Rightarrow> meta)
      in meta\<lparr>meta_modified := utc_now env\<rparr>)"

text \<open>The directory a renamed project should move to: the slug of its new name, with a
  suffix when another directory already has that name.\<close>

definition desired_folder :: "fs \<Rightarrow> path \<Rightarrow> string \<Rightarrow> path \<Rightarrow> string \<Rightarrow> path" where
  "desired_folder fs projects_root ush folder_path name =
     (let desired = slugify name;
          desired_path = join projects_root desired
      in if fs_exists fs desired_path \<and> desired_path \<noteq> folder_path
         then join projects_root (desired @ ''-'' @ short_suffix ush)
         else desired_path)"

definition vault_update_project ::
  "sysenv \<Rightarrow> string \<Rightarrow> string \<Rightarrow> string \<Rightarrow> update_project_args \<Rightarrow> (fs, project_info) res" where
  "vault_update_project env us ush u args =
     bindE (liftE (homebase_vault_root env)) (\<lambda>vault_root.
     bindE (ensure_vault_structure env us vault_root) (\<lambda>_.
     bindE (getsE (list_projects_internal vault_root)) (\<lambda>r.
     bindE (liftE r) (\<lambda>projects.
     case find (\<lambda>(_, m). meta_id m = upd_id args) projects of
       None \<Rightarrow> throwE (NotFound ''Project not found'')
     | Some (folder_path, meta0) \<Rightarrow>
         let meta = updated_meta env args meta0 in
         bindE (if upd_name args = None then returnE folder_path
                else
                  bindE (getsE (\<lambda>fs. desired_folder fs (join vault_root ''notes/projects'') ush folder_path
                                      (meta_name meta))) (\<lambda>desired_path.
                  if desired_path \<noteq> folder_path
                  then bindE (io ''Failed to rename project folder'' (\<lambda>fs. rename fs folder_path desired_path))
                         (\<lambda>_. returnE desired_path)
                  else returnE folder_path)) (\<lambda>final_folder_path.
         bindE (write_project_meta (clock_ms env) u (join final_folder_path ''.project.json'') meta) (\<lambda>_.
         bindE (liftE (relative_from_vault_root env final_folder_path)) (\<lambda>rel.
           returnE (project_info_of meta rel))))))))"


text \<open>The projects of a disk as the spec describes them (spec 2, 4.6): each directory
  directly below \<open>notes/projects\<close> whose sidecar exists and reads as a record, with that
  record. The scan of \<open>list_projects_internal\<close> and the updates of the commands are
  related to it below.\<close>

definition project_registry :: "fs \<Rightarrow> path \<Rightarrow> (path \<times> project_meta) set" where
  "project_registry fs root =
     {(p, m). map_of fs p = Some Dir \<and> p \<noteq> [] \<and> butlast p = root @ [''notes'', ''projects''] \<and>
              fs_exists fs (p @ [''.project.json'']) \<and> read_project_meta fs (p @ [''.project.json'']) = Inr m}"

subsection \<open>Paths of project directories\<close>

lemma join_projects: "join root ''notes/projects'' = root @ [''notes'', ''projects'']"
  by (simp add: join_def is_absolute_def path_components_def)

lemma join_sidecar: "join p ''.project.json'' = p @ [''.project.json'']"
  by (simp add: join_def is_absolute_def path_components_def)

lemma slug_char_backslash: "\<not> is_slug_char (CHR 0x5C)" "is_slug_char (CHR ''-'')"
  by (simp_all add: is_slug_char_def)

text \<open>A name made of slug characters is one component of a path, and is printed as it is.\<close>

lemma slug_chars_name:
  assumes "list_all is_slug_char w" "w \<noteq> []"
  shows "join base w = base @ [w]" "CHR 0x5C \<notin> set w"
proof -
  have sl: "CHR ''/'' \<notin> set w" using assms(1) slug_char_dot_slash(2) by (metis list_all_iff)
  have dot: "w \<noteq> ''.''" using assms(1) slug_char_dot_slash(1) by auto
  obtain c w' where cw: "w = c # w'" using assms(2) by (cases w) auto
  then have "c \<noteq> CHR ''/''" using sl by auto
  then have "\<not> is_absolute w" by (simp add: cw is_absolute_def)
  then show "join base w = base @ [w]"
    using assms(2) sl dot by (simp add: join_def path_components_name_single)
  show "CHR 0x5C \<notin> set w"
    using assms(1) slug_char_backslash(1) by (metis list_all_iff)
qed

lemma slugify_chars: "list_all is_slug_char (slugify s) \<and> slugify s \<noteq> []"
  using slugify_shape by (simp add: is_slug_def)

lemma suffixed_chars:
  "list_all is_slug_char sfx \<Longrightarrow> list_all is_slug_char (slugify s @ ''-'' @ sfx) \<and> slugify s @ ''-'' @ sfx \<noteq> []"
  using slugify_chars slug_char_backslash(2) by simp

lemma relative_project_folder:
  assumes "homebase_vault_root env = Inr root" "list_all is_slug_char w" "w \<noteq> []"
  shows "relative_from_vault_root env (root @ [''notes'', ''projects'', w]) = Inr (''notes/projects/'' @ w)"
proof -
  have "CHR 0x5C \<notin> set (''notes/projects/'' @ w)" using slug_chars_name(2)[OF assms(2,3)] by simp
  then show ?thesis
    using relative_from_vault_root_append[OF assms(1), of "[''notes'', ''projects'', w]"]
    by (simp add: path_to_forward_slashes_id)
qed

subsection \<open>The sidecar\<close>

lemma meta_of_members_fields: "meta_of_members (meta_fields m) = Some m"
  by (simp add: meta_of_members_def field_once_def meta_fields_def)

lemma read_project_meta_json:
  "map_of fs p = Some (File (project_meta_json m) t) \<Longrightarrow> read_project_meta fs p = Inr m"
  by (simp add: read_project_meta_def read_to_string_def project_meta_json_def parse_object_pretty
      meta_of_members_fields)

text \<open>What \<open>write_project_meta\<close> writes, \<open>read_project_meta\<close> reads back.\<close>

lemma write_read_project_meta:
  "write_project_meta t u p m fs = (Inr (), fs') \<Longrightarrow> read_project_meta fs' p = Inr m"
  using write_atomic_Inr_target read_project_meta_json by (metis write_project_meta_def)

subsection \<open>The scan of \<open>notes/projects\<close>\<close>

lemma collect_projects_mem:
  "collect_projects fs es = Inr ps \<Longrightarrow>
   (p, m) \<in> set ps \<longleftrightarrow>
   (p, Dir) \<in> set es \<and> fs_exists fs (p @ [''.project.json'']) \<and> read_project_meta fs (p @ [''.project.json'']) = Inr m"
proof (induction es arbitrary: ps)
  case (Cons e es)
  obtain q n where e: "e = (q, n)" by fastforce
  show ?case
  proof (cases n)
    case (File c t)
    then show ?thesis using Cons e by simp
  next
    case Dir
    show ?thesis
    proof (cases "fs_exists fs (q @ [''.project.json''])")
      case False
      then show ?thesis using Cons e Dir by (auto simp: join_sidecar)
    next
      case True
      then obtain mq ps' where rq: "read_project_meta fs (q @ [''.project.json'']) = Inr mq"
        and c: "collect_projects fs es = Inr ps'" and ps: "ps = (q, mq) # ps'"
        using Cons.prems(1) e Dir by (auto simp: join_sidecar split: sum.splits)
      then show ?thesis using Cons.IH[OF c] e Dir True by auto
    qed
  qed
qed simp

lemma collect_projects_ok:
  "(\<forall>p. (p, Dir) \<in> set es \<longrightarrow> fs_exists fs (p @ [''.project.json'']) \<longrightarrow>
     (\<exists>m. read_project_meta fs (p @ [''.project.json'']) = Inr m)) \<Longrightarrow>
   \<exists>ps. collect_projects fs es = Inr ps"
proof (induction es)
  case (Cons e es)
  obtain q n where e: "e = (q, n)" by fastforce
  obtain ps where "collect_projects fs es = Inr ps" using Cons by auto
  then show ?case using Cons.prems e by (cases n) (auto simp: join_sidecar Let_def)
qed simp

lemma read_dir_projects:
  assumes wf: "wf_fs fs" and rd: "read_dir fs r = Inr es"
  shows "(p, Dir) \<in> set es \<longleftrightarrow> map_of fs p = Some Dir \<and> p \<noteq> [] \<and> butlast p = r"
proof -
  have "distinct (map fst fs)" using wf by (simp add: wf_fs_def)
  then have "(p, Dir) \<in> set fs \<longleftrightarrow> map_of fs p = Some Dir" by (metis map_of_SomeD map_of_is_SomeI)
  then show ?thesis using rd by (auto simp: read_dir_def split: if_splits)
qed

text \<open>The scan is the registry: when it succeeds, it lists each project exactly once
  (in the order of the directory), and it succeeds when every sidecar reads.\<close>

lemma list_projects_registry:
  assumes wf: "wf_fs fs" and l: "list_projects_internal root fs = Inr ps"
  shows "set ps = project_registry fs root"
proof -
  obtain es where rd: "read_dir fs (root @ [''notes'', ''projects'']) = Inr es"
    and c: "collect_projects fs es = Inr ps"
    using l by (auto simp: list_projects_internal_def join_projects split: sum.splits)
  show ?thesis
    using collect_projects_mem[OF c] read_dir_projects[OF wf rd] by (auto simp: project_registry_def)
qed

lemma list_projects_internal_mem:
  assumes wf: "wf_fs fs" and l: "list_projects_internal root fs = Inr ps" and m: "(p, meta) \<in> set ps"
  shows "map_of fs p = Some Dir \<and> butlast p = root @ [''notes'', ''projects''] \<and> p \<noteq> [] \<and>
         read_project_meta fs (p @ [''.project.json'']) = Inr meta"
  using list_projects_registry[OF wf l] m by (auto simp: project_registry_def)

lemma list_projects_ok:
  assumes wf: "wf_fs fs" and d: "is_dir fs (root @ [''notes'', ''projects''])"
    and ok: "\<forall>p. map_of fs p = Some Dir \<longrightarrow> p \<noteq> [] \<longrightarrow> butlast p = root @ [''notes'', ''projects''] \<longrightarrow>
               fs_exists fs (p @ [''.project.json'']) \<longrightarrow> (\<exists>m. read_project_meta fs (p @ [''.project.json'']) = Inr m)"
  shows "\<exists>ps. list_projects_internal root fs = Inr ps"
proof -
  obtain es where rd: "read_dir fs (root @ [''notes'', ''projects'']) = Inr es"
    using d by (simp add: read_dir_def)
  then obtain ps where "collect_projects fs es = Inr ps"
    using collect_projects_ok ok read_dir_projects[OF wf rd] by blast
  then show ?thesis using rd by (simp add: list_projects_internal_def join_projects)
qed

lemma find_Some_mem: "find P xs = Some x \<Longrightarrow> x \<in> set xs \<and> P x"
  by (induction xs) (auto split: if_splits)

text \<open>A write of a sidecar into an existing directory changes no other entry of a tree.\<close>

lemma write_sidecar_frame:
  assumes wf: "wf_fs fs" and dir: "map_of fs folder = Some Dir"
    and w: "write_atomic t u (folder @ [''.project.json'']) c fs = (Inr (), fs')"
    and q: "q \<noteq> folder @ [''.project.json'']" "q \<noteq> folder @ [tmp_file_name ''.project.json'' u]"
  shows "map_of fs' q = map_of fs q"
proof -
  have wf': "wf_fs fs'" using keeps_wf_write_atomic wf w by (metis keeps_def snd_conv)
  have "map_of fs' q = map_of fs q \<or> (strict_prefix q (folder @ [''.project.json'']) \<and> map_of fs q = None)"
    using write_atomic_Inr_effect[OF _ w] q by auto
  moreover have "map_of fs' q = map_of fs q" if sp: "strict_prefix q (folder @ [''.project.json''])"
    and none: "map_of fs q = None"
  proof -
    have "prefix q folder" using sp by (simp add: strict_prefix_snoc_iff)
    then consider "q = folder" | "strict_prefix q folder" by (auto simp: strict_prefix_def)
    then have "q = []"
    proof cases
      case 2
      then have "is_dir fs q" using wf_fs_ancestor[OF wf dir] by blast
      then show ?thesis using none by (simp add: is_dir_def)
    qed (use dir none in simp)
    then show ?thesis using wf_fs_root[OF wf] wf_fs_root[OF wf'] by simp
  qed
  ultimately show ?thesis by blast
qed

text \<open>A sidecar that does not read aborts the whole scan (spec 7), whatever the other
  entries hold.\<close>

lemma collect_projects_malformed:
  "(p, Dir) \<in> set es \<Longrightarrow> fs_exists fs (p @ [''.project.json'']) \<Longrightarrow>
   read_project_meta fs (p @ [''.project.json'']) = Inl e \<Longrightarrow> \<exists>e'. collect_projects fs es = Inl e'"
proof (induction es)
  case (Cons x es)
  obtain q n where x: "x = (q, n)" by fastforce
  show ?case
  proof (cases "x = (p, Dir)")
    case True
    then show ?thesis using Cons.prems by (simp add: join_sidecar)
  next
    case False
    then have "(p, Dir) \<in> set es" using Cons.prems(1) by simp
    then obtain e' where "collect_projects fs es = Inl e'" using Cons.IH Cons.prems(2,3) by blast
    then show ?thesis by (cases n) (auto simp: x Let_def split: sum.splits)
  qed
qed simp

lemma list_projects_sorted:
  "vault_list_projects env us fs = (Inr ps, fs') \<Longrightarrow> sorted (map (\<lambda>p. to_lowercase (info_name p)) ps)"
  by (auto simp: vault_list_projects_def res_simps sort_by_name_def sorted_sort_key split: sum.splits prod.splits)

subsection \<open>The tree invariant\<close>

lemma keeps_wf_vault_create_project [intro]: "keeps wf_fs (vault_create_project env us uid ush u name)"
  unfolding vault_create_project_def write_project_meta_def Let_def by (intro keeps_bindE) auto

lemma keeps_wf_vault_update_project [intro]: "keeps wf_fs (vault_update_project env us ush u args)"
  unfolding vault_update_project_def write_project_meta_def Let_def
  by (auto intro!: keeps_bindE keeps_if split: option.splits prod.splits)

lemma keeps_wf_vault_list_projects [intro]: "keeps wf_fs (vault_list_projects env us)"
  unfolding vault_list_projects_def by (intro keeps_bindE) auto

subsection \<open>Creating a project\<close>

text \<open>C37: creating a project whose slug already names an entry of \<open>notes/projects\<close>
  (the second of two projects named \<open>My Plan\<close>, spec 8) puts it in a directory with the
  six-character suffix, writes its sidecar there with the new id, and leaves the sidecar
  of the existing directory as it was. The suffix is taken to be made of hexadecimal
  digits, as the simple form of a UUID is.\<close>

theorem create_project_collision:
  assumes wf: "wf_fs fs" and root: "homebase_vault_root env = Inr root"
    and ex: "map_of fs (root @ [''notes'', ''projects'', slugify name]) \<noteq> None"
    and sfx: "list_all is_slug_char (short_suffix ush)"
    and r: "vault_create_project env us uid ush u name fs = (Inr info, fs')"
  shows "info_folder_relative_path info = ''notes/projects/'' @ slugify name @ ''-'' @ short_suffix ush \<and>
         map_of fs' (root @ [''notes'', ''projects'', slugify name, ''.project.json'']) =
           map_of fs (root @ [''notes'', ''projects'', slugify name, ''.project.json'']) \<and>
         map_of fs' (root @ [''notes'', ''projects'', slugify name @ ''-'' @ short_suffix ush, ''.project.json'']) =
           Some (File (project_meta_json \<lparr>meta_id = uid, meta_name = name, meta_status = ''active'',
                         meta_created = utc_now env, meta_modified = utc_now env\<rparr>) (clock_ms env))"
proof -
  let ?R = "root @ [''notes'', ''projects'']"
  let ?S = "slugify name"
  let ?F = "?R @ [?S @ ''-'' @ short_suffix ush]"
  let ?P = "?F @ [''.project.json'']"
  let ?Q = "?R @ [?S, ''.project.json'']"
  let ?meta = "\<lparr>meta_id = uid, meta_name = name, meta_status = ''active'',
                meta_created = utc_now env, meta_modified = utc_now env\<rparr>"
  have jS: "join ?R ?S = ?R @ [?S]" using slugify_chars slug_chars_name(1) by blast
  have "join ?R (?S @ ''-'' @ short_suffix ush) = ?F" using suffixed_chars[OF sfx] slug_chars_name(1) by blast
  then have jF: "join ?R (?S @ CHR ''-'' # short_suffix ush) = ?F" by simp
  obtain fs1 where e: "ensure_vault_structure env us root fs = (Inr (), fs1)"
    using r root by (cases "ensure_vault_structure env us root fs")
      (auto simp: vault_create_project_def res_simps split: sum.splits)
  have wf1: "wf_fs fs1" using keeps_wf_ensure_vault_structure wf e by (metis keeps_def snd_conv)
  have frame1: "map_of fs1 q = map_of fs q" if "q = ?R @ [?S] \<or> q = ?Q" for q
    using ensure_vault_structure_frame[OF wf e] that by (auto simp: skeleton_paths)
  have ex1: "fs_exists fs1 (?R @ [?S])" using ex frame1 by (simp add: fs_exists_def)
  obtain fs2 where c: "create_dir_all fs1 ?F = Inr fs2"
    and w: "write_atomic (clock_ms env) u ?P (project_meta_json ?meta) fs2 = (Inr (), fs')"
    and rel: "relative_from_vault_root env ?F = Inr (info_folder_relative_path info)"
    using r root e ex1
    by (auto simp: vault_create_project_def res_simps io_def Let_def join_projects jS jF join_sidecar
        write_project_meta_def project_info_of_def split: sum.splits prod.splits)
  have "map_of fs2 ?Q = map_of fs1 ?Q" using create_dir_all_map_of[OF c, of ?Q] by auto
  moreover have "map_of fs' ?Q = map_of fs2 ?Q"
    by (rule write_atomic_frame[OF conjunct1[OF wf_create_dir_all[OF wf1 c]] _ w])
      (simp_all add: tmp_file_name_def butlast_append)
  moreover have "map_of fs' ?P = Some (File (project_meta_json ?meta) (clock_ms env))"
    using write_atomic_Inr_target[OF w] .
  moreover have "info_folder_relative_path info = ''notes/projects/'' @ ?S @ ''-'' @ short_suffix ush"
  proof -
    have "list_all is_slug_char (?S @ ''-'' @ short_suffix ush)" "?S @ ''-'' @ short_suffix ush \<noteq> []"
      using suffixed_chars[OF sfx, of name] by auto
    then show ?thesis using rel relative_project_folder[OF root] by simp
  qed
  ultimately show ?thesis using frame1 by simp
qed


text \<open>The demo vault after a first project \<open>My Plan\<close> was created in it.\<close>

abbreviation demo_project_fs :: fs where
  "demo_project_fs \<equiv> snd (vault_create_project demo_env ''s'' ''id1'' ''abcdef01-2'' ''t'' ''My Plan'' demo_vault_fs)"

theorem create_project_collision_witness:
  "fst (vault_create_project demo_env ''s'' ''id2'' ''1234567-89'' ''t'' ''My Plan'' demo_project_fs) =
     Inr \<lparr>info_id = ''id2'', info_name = ''My Plan'', info_status = ''active'',
          info_created = utc_now demo_env, info_modified = utc_now demo_env,
          info_folder_relative_path = ''notes/projects/my-plan-123456''\<rparr> \<and>
   map_of (snd (vault_create_project demo_env ''s'' ''id2'' ''1234567-89'' ''t'' ''My Plan'' demo_project_fs))
     [''home'', ''u'', ''Homebase'', ''notes'', ''projects'', ''my-plan'', ''.project.json''] =
   map_of demo_project_fs [''home'', ''u'', ''Homebase'', ''notes'', ''projects'', ''my-plan'', ''.project.json'']"
proof -
  let ?run = "vault_create_project demo_env ''s'' ''id2'' ''1234567-89'' ''t'' ''My Plan'' demo_project_fs"
  let ?info = "\<lparr>info_id = ''id2'', info_name = ''My Plan'', info_status = ''active'',
          info_created = utc_now demo_env, info_modified = utc_now demo_env,
          info_folder_relative_path = ''notes/projects/my-plan-123456''\<rparr>"
  have wf: "wf_fs demo_project_fs"
    using keeps_wf_vault_create_project demo_vault_fs_wf by (simp add: keeps_def)
  have sl: "slugify ''My Plan'' = ''my-plan''" by code_simp
  have ex: "map_of demo_project_fs ([''home'', ''u'', ''Homebase''] @ [''notes'', ''projects'', slugify ''My Plan'']) \<noteq> None"
    by code_simp
  have sfx: "list_all is_slug_char (short_suffix ''1234567-89'')" by code_simp
  have r: "fst ?run = Inr ?info" by code_simp
  then have run: "?run = (Inr ?info, snd ?run)" by (metis prod.collapse)
  show ?thesis using create_project_collision[OF wf demo_vault_root ex sfx run] r sl by simp
qed


subsection \<open>Updating a project\<close>

text \<open>C38: an update that changes only the status (no new name) never renames the
  project's directory (spec 4.6, 8): the project is the one with the given id in the scan
  of \<open>notes/projects\<close>, the result names its directory, the sidecar there holds the
  updated record, and every other entry of the disk (but the temporary file of the write)
  is as the bootstrap left it.\<close>

theorem update_status_keeps_folder:
  assumes wf: "wf_fs fs" and nm: "upd_name args = None"
    and r: "vault_update_project env us ush u args fs = (Inr info, fs')"
  shows "\<exists>root fs1 ps folder meta0.
     homebase_vault_root env = Inr root \<and> ensure_vault_structure env us root fs = (Inr (), fs1) \<and>
     list_projects_internal root fs1 = Inr ps \<and>
     find (\<lambda>(_, m). meta_id m = upd_id args) ps = Some (folder, meta0) \<and>
     relative_from_vault_root env folder = Inr (info_folder_relative_path info) \<and>
     map_of fs' (folder @ [''.project.json'']) =
       Some (File (project_meta_json (updated_meta env args meta0)) (clock_ms env)) \<and>
     (\<forall>q. q \<noteq> folder @ [''.project.json''] \<longrightarrow> q \<noteq> folder @ [tmp_file_name ''.project.json'' u] \<longrightarrow>
        map_of fs' q = map_of fs1 q)"
proof -
  obtain root where root: "homebase_vault_root env = Inr root"
    using r by (cases "homebase_vault_root env") (auto simp: vault_update_project_def res_simps)
  obtain fs1 where e: "ensure_vault_structure env us root fs = (Inr (), fs1)"
    using r root by (cases "ensure_vault_structure env us root fs")
      (auto simp: vault_update_project_def res_simps split: sum.splits)
  obtain ps where l: "list_projects_internal root fs1 = Inr ps"
    using r root e by (cases "list_projects_internal root fs1") (auto simp: vault_update_project_def res_simps)
  obtain folder meta0 where f: "find (\<lambda>(_, m). meta_id m = upd_id args) ps = Some (folder, meta0)"
    using r root e l by (cases "find (\<lambda>(_, m). meta_id m = upd_id args) ps")
      (auto simp: vault_update_project_def res_simps)
  have w: "write_atomic (clock_ms env) u (folder @ [''.project.json''])
             (project_meta_json (updated_meta env args meta0)) fs1 = (Inr (), fs')"
    and rel: "relative_from_vault_root env folder = Inr (info_folder_relative_path info)"
    using r root e l f nm
    by (auto simp: vault_update_project_def res_simps write_project_meta_def join_sidecar
        project_info_of_def Let_def split: sum.splits prod.splits)
  have wf1: "wf_fs fs1" using keeps_wf_ensure_vault_structure wf e by (metis keeps_def snd_conv)
  have dir: "map_of fs1 folder = Some Dir"
    using list_projects_internal_mem[OF wf1 l] find_Some_mem[OF f] by blast
  have "map_of fs' (folder @ [''.project.json'']) =
          Some (File (project_meta_json (updated_meta env args meta0)) (clock_ms env))"
    using write_atomic_Inr_target[OF w] .
  with root e l f rel write_sidecar_frame[OF wf1 dir w] show ?thesis by blast
qed

theorem update_status_keeps_folder_witness:
  "fst (vault_update_project demo_env ''s'' ''1234567-89'' ''t''
          \<lparr>upd_id = ''id1'', upd_name = None, upd_status = Some ''done''\<rparr> demo_project_fs) =
     Inr \<lparr>info_id = ''id1'', info_name = ''My Plan'', info_status = ''done'',
          info_created = utc_now demo_env, info_modified = utc_now demo_env,
          info_folder_relative_path = ''notes/projects/my-plan''\<rparr> \<and>
   (\<exists>root fs1 ps folder meta0.
     homebase_vault_root demo_env = Inr root \<and> ensure_vault_structure demo_env ''s'' root demo_project_fs = (Inr (), fs1) \<and>
     list_projects_internal root fs1 = Inr ps \<and>
     find (\<lambda>(_, m). meta_id m = ''id1'') ps = Some (folder, meta0) \<and>
     relative_from_vault_root demo_env folder = Inr ''notes/projects/my-plan'' \<and>
     (\<forall>q. q \<noteq> folder @ [''.project.json''] \<longrightarrow> q \<noteq> folder @ [tmp_file_name ''.project.json'' ''t''] \<longrightarrow>
        map_of (snd (vault_update_project demo_env ''s'' ''1234567-89'' ''t''
          \<lparr>upd_id = ''id1'', upd_name = None, upd_status = Some ''done''\<rparr> demo_project_fs)) q = map_of fs1 q))"
proof -
  let ?args = "\<lparr>upd_id = ''id1'', upd_name = None, upd_status = Some ''done''\<rparr>"
  let ?run = "vault_update_project demo_env ''s'' ''1234567-89'' ''t'' ?args demo_project_fs"
  let ?info = "\<lparr>info_id = ''id1'', info_name = ''My Plan'', info_status = ''done'',
          info_created = utc_now demo_env, info_modified = utc_now demo_env,
          info_folder_relative_path = ''notes/projects/my-plan''\<rparr>"
  have wf: "wf_fs demo_project_fs"
    using keeps_wf_vault_create_project demo_vault_fs_wf by (simp add: keeps_def)
  have r: "fst ?run = Inr ?info" by code_simp
  then have run: "?run = (Inr ?info, snd ?run)" by (metis prod.collapse)
  have nm: "upd_name ?args = None" by simp
  from update_status_keeps_folder[OF wf nm run] r show ?thesis by fastforce
qed


subsection \<open>Renaming a project onto a taken name\<close>

lemma updated_meta_name: "upd_name args = Some name \<Longrightarrow> meta_name (updated_meta env args m) = name"
  by (simp add: updated_meta_def Let_def split: option.splits)

lemma sibling_prefixes:
  "prefix (R @ [a]) q \<Longrightarrow> prefix (R @ [b]) q \<Longrightarrow> a = b"
  using prefix_length_prefix[of "R @ [a]" q "R @ [b]"] by simp

text \<open>Renaming a project to a name whose slug is the directory of another project
  (spec 8) moves it to the suffixed directory and leaves everything below the other
  directory as it was; when the project already lives in the suffixed directory, it stays.\<close>

lemma update_rename_collision:
  assumes wf1: "wf_fs fs1" and root: "homebase_vault_root env = Inr root"
    and e: "ensure_vault_structure env us root fs = (Inr (), fs1)"
    and l: "list_projects_internal root fs1 = Inr ps"
    and f: "find (\<lambda>(_, m). meta_id m = upd_id args) ps = Some (folder, meta0)"
    and nm: "upd_name args = Some name"
    and ex: "map_of fs1 (root @ [''notes'', ''projects'', slugify name]) \<noteq> None"
    and ne: "root @ [''notes'', ''projects'', slugify name] \<noteq> folder"
    and sfx: "list_all is_slug_char (short_suffix ush)"
    and r: "vault_update_project env us ush u args fs = (Inr info, fs')"
  shows "info_folder_relative_path info = ''notes/projects/'' @ slugify name @ ''-'' @ short_suffix ush \<and>
         (\<forall>q. prefix (root @ [''notes'', ''projects'', slugify name]) q \<longrightarrow> map_of fs' q = map_of fs1 q)"
proof -
  let ?R = "root @ [''notes'', ''projects'']"
  let ?D = "?R @ [slugify name]"
  let ?D' = "?R @ [slugify name @ ''-'' @ short_suffix ush]"
  let ?meta = "updated_meta env args meta0"
  have sc: "list_all is_slug_char (slugify name @ ''-'' @ short_suffix ush)"
    "slugify name @ ''-'' @ short_suffix ush \<noteq> []"
    using suffixed_chars[OF sfx, of name] by auto
  have jD: "join ?R (slugify name) = ?D" using slugify_chars slug_chars_name(1) by blast
  have "join ?R (slugify name @ ''-'' @ short_suffix ush) = ?D'" using sc slug_chars_name(1) by blast
  then have jD': "join ?R (slugify name @ CHR ''-'' # short_suffix ush) = ?D'" by simp
  have des: "desired_folder fs1 (join root ''notes/projects'') ush folder (meta_name ?meta) = ?D'"
    using ex ne by (simp add: desired_folder_def updated_meta_name[OF nm] join_projects jD jD' fs_exists_def)
  have mem: "map_of fs1 folder = Some Dir \<and> butlast folder = ?R \<and> folder \<noteq> []"
    using list_projects_internal_mem[OF wf1 l] find_Some_mem[OF f] by blast
  then obtain x where fx: "folder = ?R @ [x]" by (metis append_butlast_last_id)
  have nD: "\<not> prefix folder q" if "prefix ?D q" for q
  proof
    assume "prefix folder q"
    then have "x = slugify name" using sibling_prefixes[of ?R x q "slugify name"] that fx by simp
    then show False using fx ne by simp
  qed
  have nD': "\<not> prefix ?D' q" if "prefix ?D q" for q
  proof
    assume "prefix ?D' q"
    then have "slugify name @ ''-'' @ short_suffix ush = slugify name"
      using sibling_prefixes[of ?R "slugify name @ ''-'' @ short_suffix ush" q "slugify name"] that by simp
    then show False by simp
  qed
  obtain fs2 where mv: "\<And>q. prefix ?D q \<Longrightarrow> map_of fs2 q = map_of fs1 q"
    and w: "write_atomic (clock_ms env) u (?D' @ [''.project.json'']) (project_meta_json ?meta) fs2 = (Inr (), fs')"
    and wf2: "wf_fs fs2"
    and rel: "relative_from_vault_root env ?D' = Inr (info_folder_relative_path info)"
  proof (cases "?D' = folder")
    case True
    then show ?thesis using that[of fs1] wf1 r root e l f nm des
      by (auto simp: vault_update_project_def res_simps write_project_meta_def join_sidecar
          project_info_of_def Let_def split: sum.splits prod.splits)
  next
    case False
    obtain fs2 where rn: "rename fs1 folder ?D' = Inr fs2"
      and w: "write_atomic (clock_ms env) u (?D' @ [''.project.json'']) (project_meta_json ?meta) fs2 = (Inr (), fs')"
      and rel: "relative_from_vault_root env ?D' = Inr (info_folder_relative_path info)"
      using r root e l f nm des False
      by (auto simp: vault_update_project_def res_simps io_def write_project_meta_def join_sidecar
          project_info_of_def Let_def split: sum.splits prod.splits)
    have "map_of fs2 q = map_of fs1 q" if "prefix ?D q" for q
      using rename_frame[OF wf1 rn] nD[OF that] nD'[OF that] by blast
    moreover have "wf_fs fs2" using wf_rename[OF wf1 rn] .
    ultimately show ?thesis using that w rel by blast
  qed
  have "map_of fs' q = map_of fs1 q" if "prefix ?D q" for q
  proof -
    have "\<not> prefix q ?D'"
    proof
      assume "prefix q ?D'"
      then have "prefix ?D ?D'" using prefix_order.trans[OF that] by blast
      then show False using nD' by blast
    qed
    moreover have "\<not> prefix (?D' @ ys) q" for ys using nD'[OF that] append_prefixD by blast
    ultimately have "map_of fs' q = map_of fs2 q"
      using write_atomic_frame[OF wf2 _ w, of q] by (simp add: butlast_append)
    then show ?thesis using mv[OF that] by simp
  qed
  moreover have "info_folder_relative_path info = ''notes/projects/'' @ slugify name @ ''-'' @ short_suffix ush"
    using rel relative_project_folder[OF root sc] by simp
  ultimately show ?thesis by simp
qed


subsection \<open>The registry after a creation\<close>

lemma create_dir_all_new_child:
  assumes wf: "wf_fs fs" and par: "map_of fs (butlast p) = Some Dir" and ne: "p \<noteq> []"
    and c: "create_dir_all fs p = Inr fs2"
  shows "map_of fs2 = (map_of fs)(p \<mapsto> Dir)"
proof (rule ext)
  fix q
  show "map_of fs2 q = ((map_of fs)(p \<mapsto> Dir)) q"
  proof (cases "q = p")
    case True
    have "is_dir fs2 p" using wf_create_dir_all[OF wf c] by blast
    then show ?thesis using True ne by (simp add: is_dir_def)
  next
    case False
    have "map_of fs2 q = map_of fs q"
    proof (rule ccontr)
      assume "map_of fs2 q \<noteq> map_of fs q"
      then have q: "map_of fs q = None" "q \<noteq> []" "prefix q p"
        using create_dir_all_map_of[OF c, of q] by auto
      have "prefix q (butlast p)" using q(3) False ne by (metis append_butlast_last_id prefix_snoc)
      then consider "q = butlast p" | "strict_prefix q (butlast p)" by (auto simp: strict_prefix_def)
      then show False
      proof cases
        case 2
        then have "is_dir fs q" using wf_fs_ancestor[OF wf par] by blast
        then show False using q by (simp add: is_dir_def)
      qed (use q par in simp)
    qed
    then show ?thesis using False by simp
  qed
qed

text \<open>The disk after a new project directory and its sidecar were written: the directory
  and the sidecar are added, and nothing else changes.\<close>

lemma new_project_effect:
  assumes wf: "wf_fs fs" and par: "map_of fs R = Some Dir" and none: "map_of fs (R @ [w]) = None"
    and c: "create_dir_all fs (R @ [w]) = Inr fs2"
    and wr: "write_atomic t u ((R @ [w]) @ [''.project.json'']) txt fs2 = (Inr (), fs')"
  shows "map_of fs' = (map_of fs)(R @ [w] \<mapsto> Dir, (R @ [w]) @ [''.project.json''] \<mapsto> File txt t)"
proof -
  let ?F = "R @ [w]"
  let ?tmp = "?F @ [tmp_file_name ''.project.json'' u]"
  have m2: "map_of fs2 = (map_of fs)(?F \<mapsto> Dir)"
    using create_dir_all_new_child[OF wf _ _ c] par by simp
  have wf2: "wf_fs fs2" using wf_create_dir_all[OF wf c] by blast
  have d2: "map_of fs2 ?F = Some Dir" using m2 by simp
  have tmp: "map_of fs ?tmp = None" using absent_subtree[OF wf _ none] by simp
  have tmp': "map_of fs' ?tmp = None" using write_atomic_Inr_effect[OF _ wr] by (simp add: butlast_append)
  show ?thesis
  proof (rule ext)
    fix q
    consider "q = ?F @ [''.project.json'']" | "q = ?tmp" | "q \<noteq> ?F @ [''.project.json'']" "q \<noteq> ?tmp"
      by blast
    then show "map_of fs' q = ((map_of fs)(?F \<mapsto> Dir, ?F @ [''.project.json''] \<mapsto> File txt t)) q"
    proof cases
      case 1
      then show ?thesis using write_atomic_Inr_target[OF wr] by simp
    next
      case 2
      then show ?thesis using tmp tmp' tmp_file_name_neq[of "''.project.json''" u] by simp
    next
      case 3
      then show ?thesis using write_sidecar_frame[OF wf2 d2 wr 3] m2 by simp
    qed
  qed
qed

lemma read_project_meta_cong:
  "map_of fs p = map_of fs' p \<Longrightarrow> read_project_meta fs p = read_project_meta fs' p"
  by (simp add: read_project_meta_def read_to_string_def)

lemma new_project_child:
  assumes m: "map_of fs' = (map_of fs)(R @ [w] \<mapsto> Dir, (R @ [w]) @ [''.project.json''] \<mapsto> c)"
    and a: "p \<noteq> R @ [w]" "butlast p = R" "p \<noteq> []"
  shows "map_of fs' p = map_of fs p \<and> map_of fs' (p @ [''.project.json'']) = map_of fs (p @ [''.project.json''])"
proof -
  let ?F = "R @ [w]"
  have same: "map_of fs' q = map_of fs q" if "q \<noteq> ?F" "q \<noteq> ?F @ [''.project.json'']" for q
    using that m by simp
  have n1: "p \<noteq> ?F @ [''.project.json'']"
  proof
    assume "p = ?F @ [''.project.json'']"
    then have "butlast p = ?F" by (simp add: butlast_append)
    then show False using a(2) by simp
  qed
  have n2: "p @ [''.project.json''] \<noteq> ?F"
  proof
    assume "p @ [''.project.json''] = ?F"
    then have "p = R" by simp
    then show False using a(2,3) butlast_neq_self by metis
  qed
  have n3: "p @ [''.project.json''] \<noteq> ?F @ [''.project.json'']" using a(1) by simp
  show ?thesis using same[OF a(1) n1] same[OF n2 n3] by blast
qed

lemma registry_new_project:
  assumes m: "map_of fs' = (map_of fs)(R @ [w] \<mapsto> Dir, (R @ [w]) @ [''.project.json''] \<mapsto> File (project_meta_json meta) t)"
    and none: "map_of fs (R @ [w]) = None" and R: "R = root @ [''notes'', ''projects'']"
  shows "project_registry fs' root = insert (R @ [w], meta) (project_registry fs root)"
proof -
  let ?F = "R @ [w]"
  have same: "map_of fs' q = map_of fs q" if "q \<noteq> ?F" "q \<noteq> ?F @ [''.project.json'']" for q
    using that m by simp
  have child: "p \<noteq> ?F \<Longrightarrow> butlast p = R \<Longrightarrow> p \<noteq> [] \<Longrightarrow>
      map_of fs' p = map_of fs p \<and> map_of fs' (p @ [''.project.json'']) = map_of fs (p @ [''.project.json''])" for p
    using new_project_child[OF m] by blast
  have newf: "(?F, m') \<in> project_registry fs' root \<longleftrightarrow> m' = meta" for m'
    using m read_project_meta_json[of fs' "?F @ [''.project.json'']" meta t] R
    by (auto simp: project_registry_def fs_exists_def butlast_append)
  have oldf: "(?F, m') \<notin> project_registry fs root" for m'
    using none by (simp add: project_registry_def)
  show ?thesis
  proof (intro set_eqI iffI)
    fix x assume x: "x \<in> project_registry fs' root"
    obtain p m' where pm: "x = (p, m')" by fastforce
    show "x \<in> insert (?F, meta) (project_registry fs root)"
    proof (cases "p = ?F")
      case False
      then show ?thesis using x pm child[OF False] R
        by (auto simp: project_registry_def fs_exists_def read_project_meta_cong[of fs' _ fs])
    qed (use x pm newf in auto)
  next
    fix x assume x: "x \<in> insert (?F, meta) (project_registry fs root)"
    obtain p m' where pm: "x = (p, m')" by fastforce
    show "x \<in> project_registry fs' root"
    proof (cases "p = ?F")
      case False
      then show ?thesis using x pm child[OF False] R
        by (auto simp: project_registry_def fs_exists_def read_project_meta_cong[of fs' _ fs])
    qed (use x pm newf oldf in auto)
  qed
qed


text \<open>A successful creation, step by step: the directory it picks is the slug, or the
  slug with the suffix when the slug is taken.\<close>

lemma vault_create_project_run:
  assumes root: "homebase_vault_root env = Inr root"
    and e: "ensure_vault_structure env us root fs = (Inr (), fs1)"
    and sfx: "list_all is_slug_char (short_suffix ush)"
    and r: "vault_create_project env us uid ush u name fs = (Inr info, fs')"
  obtains fs2 where
    "create_dir_all fs1 (root @ [''notes'', ''projects'',
        if fs_exists fs1 (root @ [''notes'', ''projects'', slugify name])
        then slugify name @ ''-'' @ short_suffix ush else slugify name]) = Inr fs2"
    "write_atomic (clock_ms env) u ((root @ [''notes'', ''projects'',
        if fs_exists fs1 (root @ [''notes'', ''projects'', slugify name])
        then slugify name @ ''-'' @ short_suffix ush else slugify name]) @ [''.project.json''])
        (project_meta_json \<lparr>meta_id = uid, meta_name = name, meta_status = ''active'',
                             meta_created = utc_now env, meta_modified = utc_now env\<rparr>) fs2 = (Inr (), fs')"
    "relative_from_vault_root env (root @ [''notes'', ''projects'',
        if fs_exists fs1 (root @ [''notes'', ''projects'', slugify name])
        then slugify name @ ''-'' @ short_suffix ush else slugify name]) = Inr (info_folder_relative_path info)"
proof -
  let ?R = "root @ [''notes'', ''projects'']"
  let ?S = "slugify name"
  have jS: "join ?R ?S = ?R @ [?S]" using slugify_chars slug_chars_name(1) by blast
  have "join ?R (?S @ ''-'' @ short_suffix ush) = ?R @ [?S @ ''-'' @ short_suffix ush]"
    using suffixed_chars[OF sfx] slug_chars_name(1) by blast
  then have jF: "join ?R (?S @ CHR ''-'' # short_suffix ush) = ?R @ [?S @ ''-'' @ short_suffix ush]" by simp
  show ?thesis
  proof (cases "fs_exists fs1 (?R @ [?S])")
    case True
    then show ?thesis using that r root e
      by (auto simp: vault_create_project_def res_simps io_def Let_def join_projects jS jF join_sidecar
          write_project_meta_def project_info_of_def split: sum.splits prod.splits)
  next
    case False
    then show ?thesis using that r root e
      by (auto simp: vault_create_project_def res_simps io_def Let_def join_projects jS join_sidecar
          write_project_meta_def project_info_of_def split: sum.splits prod.splits)
  qed
qed


lemma list_projects_reads:
  assumes wf: "wf_fs fs" and l: "list_projects_internal root fs = Inr ps"
    and p: "map_of fs p = Some Dir" "p \<noteq> []" "butlast p = root @ [''notes'', ''projects'']"
    and ex: "fs_exists fs (p @ [''.project.json''])"
  shows "\<exists>m. read_project_meta fs (p @ [''.project.json'']) = Inr m"
proof (cases "read_project_meta fs (p @ [''.project.json''])")
  case (Inl e)
  obtain es where rd: "read_dir fs (root @ [''notes'', ''projects'']) = Inr es"
    and c: "collect_projects fs es = Inr ps"
    using l by (auto simp: list_projects_internal_def join_projects split: sum.splits)
  have "(p, Dir) \<in> set es" using read_dir_projects[OF wf rd] p by blast
  then show ?thesis using collect_projects_malformed[OF _ ex Inl, of es] c by auto
qed simp

text \<open>When the scan succeeded before a new project was added, it succeeds after.\<close>

lemma list_projects_new_project:
  assumes wf: "wf_fs fs" and wf': "wf_fs fs'" and l: "list_projects_internal root fs = Inr ps"
    and rdir: "map_of fs (root @ [''notes'', ''projects'']) = Some Dir"
    and m: "map_of fs' = (map_of fs)((root @ [''notes'', ''projects'']) @ [w] \<mapsto> Dir,
              ((root @ [''notes'', ''projects'']) @ [w]) @ [''.project.json''] \<mapsto> File (project_meta_json meta) t)"
    and none: "map_of fs ((root @ [''notes'', ''projects'']) @ [w]) = None"
  shows "\<exists>ps'. list_projects_internal root fs' = Inr ps'"
proof -
  let ?R = "root @ [''notes'', ''projects'']"
  let ?F = "?R @ [w]"
  have "map_of fs' ?R = Some Dir" using m rdir by simp
  then have dR: "is_dir fs' ?R" by (simp add: is_dir_def)
  have ok: "\<exists>m'. read_project_meta fs' (p @ [''.project.json'']) = Inr m'"
    if "map_of fs' p = Some Dir" "p \<noteq> []" "butlast p = ?R" "fs_exists fs' (p @ [''.project.json''])" for p
  proof (cases "p = ?F")
    case True
    then show ?thesis using m read_project_meta_json[of fs' "?F @ [''.project.json'']" meta] by auto
  next
    case False
    have same: "map_of fs' p = map_of fs p \<and> map_of fs' (p @ [''.project.json'']) = map_of fs (p @ [''.project.json''])"
      using new_project_child[OF m False that(3,2)] .
    then have "\<exists>m'. read_project_meta fs (p @ [''.project.json'']) = Inr m'"
      using list_projects_reads[OF wf l] that by (simp add: fs_exists_def)
    then show ?thesis using same read_project_meta_cong[of fs' "p @ [''.project.json'']" fs] by simp
  qed
  show ?thesis using list_projects_ok[OF wf' dR] ok by blast
qed

text \<open>C39: creation refines the abstract registry (spec 4.6): a successful
  \<open>vault_create_project\<close> adds exactly one project, the new record in a directory that held
  none, to the projects of the disk; the listing, which was the registry before, lists
  the same projects and the new one afterwards. The suffixed directory is taken to be
  free when the slug is taken (the code does not check it).\<close>

theorem create_project_refines:
  assumes wf: "wf_fs fs" and root: "homebase_vault_root env = Inr root"
    and e: "ensure_vault_structure env us root fs = (Inr (), fs1)"
    and l: "list_projects_internal root fs1 = Inr ps"
    and sfx: "list_all is_slug_char (short_suffix ush)"
    and fresh: "map_of fs1 (root @ [''notes'', ''projects'', slugify name @ ''-'' @ short_suffix ush]) = None"
    and r: "vault_create_project env us uid ush u name fs = (Inr info, fs')"
  shows "\<exists>F ps'. relative_from_vault_root env F = Inr (info_folder_relative_path info) \<and> F \<notin> fst ` set ps \<and>
     project_registry fs' root =
       insert (F, \<lparr>meta_id = uid, meta_name = name, meta_status = ''active'',
                   meta_created = utc_now env, meta_modified = utc_now env\<rparr>) (project_registry fs1 root) \<and>
     list_projects_internal root fs' = Inr ps' \<and>
     set ps' = insert (F, \<lparr>meta_id = uid, meta_name = name, meta_status = ''active'',
                   meta_created = utc_now env, meta_modified = utc_now env\<rparr>) (set ps)"
proof -
  let ?R = "root @ [''notes'', ''projects'']"
  let ?w = "if fs_exists fs1 (root @ [''notes'', ''projects'', slugify name]) then slugify name @ ''-'' @ short_suffix ush else slugify name"
  let ?F = "?R @ [?w]"
  let ?meta = "\<lparr>meta_id = uid, meta_name = name, meta_status = ''active'',
                meta_created = utc_now env, meta_modified = utc_now env\<rparr>"
  obtain fs2 where c0: "create_dir_all fs1 (root @ [''notes'', ''projects'', ?w]) = Inr fs2"
    and w0: "write_atomic (clock_ms env) u ((root @ [''notes'', ''projects'', ?w]) @ [''.project.json''])
               (project_meta_json ?meta) fs2 = (Inr (), fs')"
    and rel0: "relative_from_vault_root env (root @ [''notes'', ''projects'', ?w]) = Inr (info_folder_relative_path info)"
    by (rule vault_create_project_run[OF root e sfx r])
  have eqF: "root @ [''notes'', ''projects'', ?w] = ?F" by simp
  have c: "create_dir_all fs1 ?F = Inr fs2" using c0 by (simp only: eqF)
  have w: "write_atomic (clock_ms env) u (?F @ [''.project.json'']) (project_meta_json ?meta) fs2 = (Inr (), fs')"
    using w0 by (simp only: eqF)
  have rel: "relative_from_vault_root env ?F = Inr (info_folder_relative_path info)" using rel0 by (simp only: eqF)
  have wf1: "wf_fs fs1" using keeps_wf_ensure_vault_structure wf e by (metis keeps_def snd_conv)
  have "is_dir fs1 ?R"
    using l by (auto simp: list_projects_internal_def join_projects read_dir_def Let_def split: if_splits sum.splits)
  then have rdir: "map_of fs1 ?R = Some Dir" by (simp add: is_dir_def)
  have none: "map_of fs1 ?F = None" using fresh by (cases "fs_exists fs1 (root @ [''notes'', ''projects'', slugify name])") (auto simp: fs_exists_def)
  have m: "map_of fs' = (map_of fs1)(?F \<mapsto> Dir, ?F @ [''.project.json''] \<mapsto> File (project_meta_json ?meta) (clock_ms env))"
    by (rule new_project_effect[OF wf1 rdir none c w])
  have reg: "project_registry fs' root = insert (?F, ?meta) (project_registry fs1 root)"
    by (rule registry_new_project[OF m none refl])
  have wf': "wf_fs fs'" using keeps_wf_vault_create_project wf r by (metis keeps_def snd_conv)
  obtain ps' where l': "list_projects_internal root fs' = Inr ps'"
    using list_projects_new_project[OF wf1 wf' l rdir m none] by blast
  have "?F \<notin> fst ` set ps"
    using list_projects_registry[OF wf1 l] none by (auto simp: project_registry_def)
  moreover have "set ps' = insert (?F, ?meta) (set ps)"
    using list_projects_registry[OF wf' l'] list_projects_registry[OF wf1 l] reg by simp
  ultimately show ?thesis using rel reg l' by blast
qed


theorem create_project_refines_witness:
  "list_projects_internal [''home'', ''u'', ''Homebase''] demo_project_fs =
     Inr [([''home'', ''u'', ''Homebase'', ''notes'', ''projects'', ''my-plan''],
           \<lparr>meta_id = ''id1'', meta_name = ''My Plan'', meta_status = ''active'',
            meta_created = utc_now demo_env, meta_modified = utc_now demo_env\<rparr>)] \<and>
   (\<exists>F ps'. relative_from_vault_root demo_env F = Inr ''notes/projects/my-plan-123456'' \<and>
     list_projects_internal [''home'', ''u'', ''Homebase'']
       (snd (vault_create_project demo_env ''s'' ''id2'' ''1234567-89'' ''t'' ''My Plan'' demo_project_fs)) = Inr ps' \<and>
     set ps' = insert (F, \<lparr>meta_id = ''id2'', meta_name = ''My Plan'', meta_status = ''active'',
                   meta_created = utc_now demo_env, meta_modified = utc_now demo_env\<rparr>)
       {([''home'', ''u'', ''Homebase'', ''notes'', ''projects'', ''my-plan''],
           \<lparr>meta_id = ''id1'', meta_name = ''My Plan'', meta_status = ''active'',
            meta_created = utc_now demo_env, meta_modified = utc_now demo_env\<rparr>)})"
proof -
  let ?run = "vault_create_project demo_env ''s'' ''id2'' ''1234567-89'' ''t'' ''My Plan'' demo_project_fs"
  let ?info = "\<lparr>info_id = ''id2'', info_name = ''My Plan'', info_status = ''active'',
          info_created = utc_now demo_env, info_modified = utc_now demo_env,
          info_folder_relative_path = ''notes/projects/my-plan-123456''\<rparr>"
  have wf: "wf_fs demo_project_fs"
    using keeps_wf_vault_create_project demo_vault_fs_wf by (simp add: keeps_def)
  have e: "ensure_vault_structure demo_env ''s'' [''home'', ''u'', ''Homebase''] demo_project_fs =
      (Inr (), demo_project_fs)" by code_simp
  have l: "list_projects_internal [''home'', ''u'', ''Homebase''] demo_project_fs =
     Inr [([''home'', ''u'', ''Homebase'', ''notes'', ''projects'', ''my-plan''],
           \<lparr>meta_id = ''id1'', meta_name = ''My Plan'', meta_status = ''active'',
            meta_created = utc_now demo_env, meta_modified = utc_now demo_env\<rparr>)]" by code_simp
  have sfx: "list_all is_slug_char (short_suffix ''1234567-89'')" by code_simp
  have fr: "map_of demo_project_fs ([''home'', ''u'', ''Homebase''] @
      [''notes'', ''projects'', slugify ''My Plan'' @ ''-'' @ short_suffix ''1234567-89'']) = None" by code_simp
  have r: "fst ?run = Inr ?info" by code_simp
  then have run: "?run = (Inr ?info, snd ?run)" by (metis prod.collapse)
  show ?thesis using create_project_refines[OF wf demo_vault_root e l sfx fr run] l by auto
qed

end
