(* ===== verification/SlugSpec.thy ===== *)
theory SlugSpec
  imports Slug
begin

text \<open>
  A reference definition of \<open>slugify\<close>, written from the slug rule of the spec (section
  3): the words of the trimmed input (its maximal runs of ASCII letters and digits),
  lower-cased and joined by single dashes, or \<open>"project"\<close> when there is none. The code's
  single pass with the flag \<open>last_was_dash\<close> and the final \<open>trim_matches('-')\<close> computes
  exactly this (the equivalence below). The word splitting is a \<open>function\<close> whose
  termination is shown by the length of the input.
\<close>

definition slug_alnum :: "char \<Rightarrow> bool" where
  "slug_alnum c \<longleftrightarrow> is_ascii_alphanumeric (to_ascii_lowercase c)"

function words_of :: "string \<Rightarrow> string list" where
  "words_of s =
     (let s' = dropWhile (\<lambda>c. \<not> slug_alnum c) s in
      if s' = [] then [] else takeWhile slug_alnum s' # words_of (dropWhile slug_alnum s'))"
  by pat_completeness auto
termination
proof (relation "measure length")
  fix s s' :: string
  assume s': "s' = dropWhile (\<lambda>c. \<not> slug_alnum c) s" and ne: "s' \<noteq> []"
  obtain x xs where x: "s' = x # xs" using ne by (cases s') auto
  have "\<not> \<not> slug_alnum (hd s')" using hd_dropWhile[of "\<lambda>c. \<not> slug_alnum c" s] s' ne by blast
  then have "slug_alnum x" using x by simp
  then have "length (dropWhile slug_alnum s') = length (dropWhile slug_alnum xs)" using x by simp
  also have "\<dots> < length s'" using x length_dropWhile_le[of slug_alnum xs] by simp
  finally have "length (dropWhile slug_alnum s') < length s'" .
  moreover have "length s' \<le> length s" using s' by (simp add: length_dropWhile_le)
  ultimately show "(dropWhile slug_alnum s', s) \<in> measure length" by simp
qed simp

declare words_of.simps [simp del]

fun join_dash :: "string list \<Rightarrow> string" where
  "join_dash [] = []"
| "join_dash [w] = w"
| "join_dash (w # ws) = w @ ''-'' @ join_dash ws"

definition slugify_reference :: "string \<Rightarrow> string" where
  "slugify_reference input =
     (let ws = map (map to_ascii_lowercase) (words_of (trim input))
      in if ws = [] then ''project'' else join_dash ws)"


subsection \<open>The pass of the code, run by run\<close>

lemma slug_loop_nonalnum:
  "\<forall>c\<in>set n. \<not> slug_alnum c \<Longrightarrow>
   slug_loop (n @ r) b = (if n \<noteq> [] \<and> \<not> b then ''-'' else []) @ slug_loop r (b \<or> n \<noteq> [])"
proof (induction n arbitrary: b)
  case (Cons c n)
  have "\<not> is_ascii_alphanumeric (to_ascii_lowercase c)" using Cons.prems by (simp add: slug_alnum_def)
  then show ?case using Cons by (cases b) (auto simp: Let_def)
qed simp

lemma slug_loop_alnum:
  "\<forall>c\<in>set w. slug_alnum c \<Longrightarrow> w \<noteq> [] \<Longrightarrow>
   slug_loop (w @ r) b = map to_ascii_lowercase w @ slug_loop r False"
proof (induction w arbitrary: b)
  case (Cons c w)
  have "is_ascii_alphanumeric (to_ascii_lowercase c)" using Cons.prems by (simp add: slug_alnum_def)
  then show ?case using Cons by (cases w) (auto simp: Let_def)
qed simp

lemma words_of_Nil: "words_of [] = []"
  by (simp add: words_of.simps[of "[]"])

lemma takeWhile_hd_nonempty: "s \<noteq> [] \<Longrightarrow> P (hd s) \<Longrightarrow> takeWhile P s \<noteq> []"
  by (cases s) auto

lemma hd_word_start:
  "dropWhile (\<lambda>c. \<not> slug_alnum c) t \<noteq> [] \<Longrightarrow> slug_alnum (hd (dropWhile (\<lambda>c. \<not> slug_alnum c) t))"
  by (rule notnotD, rule hd_dropWhile)

lemma words_of_mem: "w \<in> set (words_of t) \<Longrightarrow> w \<noteq> [] \<and> (\<forall>c\<in>set w. slug_alnum c)"
proof (induction t rule: words_of.induct)
  case (1 t)
  let ?s = "dropWhile (\<lambda>c. \<not> slug_alnum c) t"
  show ?case
  proof (cases "?s = []")
    case True
    then show ?thesis using "1.prems" by (simp add: words_of.simps[of t])
  next
    case False
    let ?w = "takeWhile slug_alnum ?s"
    have ws: "words_of t = ?w # words_of (dropWhile slug_alnum ?s)"
      using False by (simp add: words_of.simps[of t] Let_def)
    have wne: "?w \<noteq> []" using takeWhile_hd_nonempty[where P=slug_alnum, OF False hd_word_start[OF False]] .
    have wa: "\<forall>c\<in>set ?w. slug_alnum c" by (auto dest: set_takeWhileD)
    from "1.prems" ws have "w = ?w \<or> w \<in> set (words_of (dropWhile slug_alnum ?s))" by simp
    then show ?thesis
    proof
      assume w: "w = ?w"
      show ?thesis unfolding w using wne wa by (intro conjI)
    next
      assume "w \<in> set (words_of (dropWhile slug_alnum ?s))"
      then show ?thesis by (rule "1.IH"[OF refl False])
    qed
  qed
qed

lemma join_dash_Cons: "ws \<noteq> [] \<Longrightarrow> join_dash (w # ws) = w @ ''-'' @ join_dash ws"
  by (cases ws) auto

lemma join_dash_shape:
  "\<forall>w\<in>set ws. w \<noteq> [] \<and> (\<forall>c\<in>set w. c \<noteq> CHR ''-'') \<Longrightarrow> ws \<noteq> [] \<Longrightarrow>
   join_dash ws \<noteq> [] \<and> hd (join_dash ws) \<noteq> CHR ''-'' \<and> last (join_dash ws) \<noteq> CHR ''-''"
  by (induction ws rule: join_dash.induct) auto

lemma lower_alnum_not_dash: "slug_alnum c \<Longrightarrow> to_ascii_lowercase c \<noteq> CHR ''-''"
  using alnum_not_dash by (simp add: slug_alnum_def)

text \<open>The output of the pass: a dash for a leading run of other characters (unless one
  was just written), the words joined by single dashes, and at most dashes after them.\<close>

lemma slug_loop_words:
  "\<exists>S. (\<forall>x\<in>set S. x = CHR ''-'') \<and>
     slug_loop t b = (if takeWhile (\<lambda>c. \<not> slug_alnum c) t \<noteq> [] \<and> \<not> b then ''-'' else []) @
                     join_dash (map (map to_ascii_lowercase) (words_of t)) @ S"
proof (induction t arbitrary: b rule: words_of.induct)
  case (1 t)
  define n where "n = takeWhile (\<lambda>c. \<not> slug_alnum c) t"
  define s' where "s' = dropWhile (\<lambda>c. \<not> slug_alnum c) t"
  define P where "P = (if n \<noteq> [] \<and> \<not> b then ''-'' else [])"
  have t: "t = n @ s'" by (simp add: n_def s'_def)
  have nn: "\<forall>c\<in>set n. \<not> slug_alnum c" unfolding n_def by (auto dest: set_takeWhileD)
  have A: "slug_loop t b = P @ slug_loop s' (b \<or> n \<noteq> [])"
    unfolding t P_def by (rule slug_loop_nonalnum[OF nn])
  have W: "words_of t = (if s' = [] then [] else takeWhile slug_alnum s' # words_of (dropWhile slug_alnum s'))"
    by (simp only: words_of.simps[of t] Let_def s'_def[symmetric])
  show ?case unfolding n_def[symmetric] P_def[symmetric]
  proof (cases "s' = []")
    case True
    then have "words_of t = []" "slug_loop t b = P @ []" using W A by simp_all
    then show "\<exists>S. (\<forall>x\<in>set S. x = CHR ''-'') \<and>
        slug_loop t b = P @ join_dash (map (map to_ascii_lowercase) (words_of t)) @ S" by simp
  next
    case False
    define w where "w = takeWhile slug_alnum s'"
    define r where "r = dropWhile slug_alnum s'"
    have s': "s' = w @ r" by (simp add: w_def r_def)
    have ws: "words_of t = w # words_of r" using W False by (simp add: w_def r_def)
    have "slug_alnum (hd s')" using hd_word_start[of t] False unfolding s'_def by blast
    then have wne: "w \<noteq> []" unfolding w_def by (rule takeWhile_hd_nonempty[OF False])
    have wa: "\<forall>c\<in>set w. slug_alnum c" unfolding w_def by (auto dest: set_takeWhileD)
    have B: "slug_loop s' (b \<or> n \<noteq> []) = map to_ascii_lowercase w @ slug_loop r False"
      unfolding s' by (rule slug_loop_alnum[OF wa wne])
    define n1 where "n1 = takeWhile (\<lambda>c. \<not> slug_alnum c) r"
    define P1 where "P1 = (if n1 \<noteq> [] then ''-'' else [])"
    obtain S1 where S1: "\<forall>x\<in>set S1. x = CHR ''-''"
      and rl: "slug_loop r False = P1 @ join_dash (map (map to_ascii_lowercase) (words_of r)) @ S1"
      using "1.IH"[OF s'_def False, of False] unfolding r_def[symmetric] n1_def[symmetric] P1_def by auto
    show "\<exists>S. (\<forall>x\<in>set S. x = CHR ''-'') \<and>
        slug_loop t b = P @ join_dash (map (map to_ascii_lowercase) (words_of t)) @ S"
    proof (cases "words_of r = []")
      case True
      have "slug_loop t b = P @ join_dash (map (map to_ascii_lowercase) (words_of t)) @ (P1 @ S1)"
        using A B rl ws True by simp
      moreover have "\<forall>x\<in>set (P1 @ S1). x = CHR ''-''" using S1 by (auto simp: P1_def)
      ultimately show ?thesis by blast
    next
      case False
      then have rne: "r \<noteq> []" by (metis words_of_Nil)
      have "\<not> slug_alnum (hd r)" unfolding r_def by (rule hd_dropWhile) (use rne r_def in simp)
      then have "n1 \<noteq> []" unfolding n1_def by (rule takeWhile_hd_nonempty[OF rne])
      then have "slug_loop t b = P @ map to_ascii_lowercase w @ ''-'' @
              join_dash (map (map to_ascii_lowercase) (words_of r)) @ S1"
        using A B rl by (simp add: P1_def)
      then have "slug_loop t b = P @ join_dash (map (map to_ascii_lowercase) (words_of t)) @ S1"
        using ws False by (simp add: join_dash_Cons)
      then show ?thesis using S1 by blast
    qed
  qed
qed

lemma trim_matches_around:
  assumes P: "\<forall>x\<in>set P. x = c" and S: "\<forall>x\<in>set S. x = c"
    and J: "J = [] \<or> (hd J \<noteq> c \<and> last J \<noteq> c)"
  shows "trim_matches (P @ J @ S) c = J"
proof (cases "J = []")
  case True
  have "\<forall>x\<in>set (P @ J @ S). x = c" using P S True by auto
  then have d: "dropWhile (\<lambda>x. x = c) (P @ J @ S) = []" by (simp only: dropWhile_eq_Nil_conv)
  show ?thesis unfolding trim_matches_def d using True by (simp add: trim_end_matches_def)
next
  case False
  then obtain j J' where j: "J = j # J'" by (cases J) auto
  have "dropWhile (\<lambda>x. x = c) (P @ (J @ S)) = dropWhile (\<lambda>x. x = c) (J @ S)"
    by (rule dropWhile_append2) (use P in auto)
  also have "\<dots> = J @ S" using j J by simp
  finally have d1: "dropWhile (\<lambda>x. x = c) (P @ J @ S) = J @ S" by simp
  have rj: "rev J = last J # rev (butlast J)"
    using append_butlast_last_id[OF False] by (metis rev.simps(2) rev_rev_ident)
  have "dropWhile (\<lambda>x. x = c) (rev S @ rev J) = dropWhile (\<lambda>x. x = c) (rev J)"
    by (rule dropWhile_append2) (use S in auto)
  also have "\<dots> = rev J"
  proof -
    have "dropWhile (\<lambda>x. x = c) (last J # rev (butlast J)) = last J # rev (butlast J)"
      using J False by simp
    then show ?thesis by (simp only: rj)
  qed
  finally have d2: "dropWhile (\<lambda>x. x = c) (rev (J @ S)) = rev J" by simp
  show ?thesis using d1 d2 by (simp add: trim_matches_def trim_end_matches_def)
qed

text \<open>C40: the code's \<open>slugify\<close> is the reference definition: the words of the trimmed
  input, lower-cased, joined by single dashes, or \<open>"project"\<close> when it has no ASCII letter
  or digit (spec 3).\<close>

theorem slugify_equiv_reference: "slugify s = slugify_reference s"
proof -
  define ws where "ws = map (map to_ascii_lowercase) (words_of (trim s))"
  define J where "J = join_dash ws"
  define P where "P = (if takeWhile (\<lambda>c. \<not> slug_alnum c) (trim s) \<noteq> [] then ''-'' else [])"
  obtain S where S: "\<forall>x\<in>set S. x = CHR ''-''" and l: "slug_loop (trim s) False = P @ J @ S"
    using slug_loop_words[of "trim s" False] unfolding P_def J_def ws_def by auto
  have words: "\<forall>w\<in>set ws. w \<noteq> [] \<and> (\<forall>c\<in>set w. c \<noteq> CHR ''-'')"
  proof
    fix w assume "w \<in> set ws"
    then obtain v where v: "v \<in> set (words_of (trim s))" and w: "w = map to_ascii_lowercase v"
      unfolding ws_def by auto
    have "v \<noteq> [] \<and> (\<forall>c\<in>set v. slug_alnum c)" using words_of_mem[OF v] .
    then show "w \<noteq> [] \<and> (\<forall>c\<in>set w. c \<noteq> CHR ''-'')" unfolding w using lower_alnum_not_dash by auto
  qed
  have shape: "ws \<noteq> [] \<Longrightarrow> J \<noteq> [] \<and> hd J \<noteq> CHR ''-'' \<and> last J \<noteq> CHR ''-''"
    unfolding J_def using join_dash_shape[OF words] by blast
  have Pd: "\<forall>x\<in>set P. x = CHR ''-''" by (simp add: P_def)
  have Jc: "J = [] \<or> (hd J \<noteq> CHR ''-'' \<and> last J \<noteq> CHR ''-'')"
  proof (cases "ws = []")
    case True
    then show ?thesis by (simp add: J_def)
  qed (use shape in blast)
  have tm: "trim_matches (slug_loop (trim s) False) CHR ''-'' = J"
    unfolding l by (rule trim_matches_around[OF Pd S Jc])
  have e: "J = [] \<longleftrightarrow> ws = []" using shape J_def by auto
  show ?thesis
    unfolding slugify_def slugify_reference_def Let_def tm ws_def[symmetric] J_def[symmetric]
    using e by simp
qed

end
