(* ===== verification/Spec2Isabelle.thy ===== *)
theory Spec2Isabelle
  imports NoteMove Folders Projects SlugSpec
begin

text \<open>
  \<^bold>\<open>Homebase vault: a verification development of \<open>src/apps/desktop/src-tauri/src/vault.rs\<close>.\<close>

  \<^bold>\<open>The program.\<close> The desktop application keeps its notes in a directory tree, the
  vault, at \<open>~/Homebase\<close>. The Tauri commands of \<open>vault.rs\<close> are its only writers: every
  command resolves the vault root from the home directory (\<open>homebase_vault_root\<close>), creates
  the fixed skeleton and the settings file on demand (\<open>ensure_vault_structure\<close>), checks
  and resolves the vault-relative paths it is given (\<open>validate_relative_path\<close>,
  \<open>resolve_vault_path\<close>, \<open>relative_from_vault_root\<close>), and writes files through the
  temporary-file-and-rename discipline of \<open>write_atomic\<close>. On top of these sit the
  lifecycles of notes (list, read, write, create, import, archive, move), folders (list,
  create, rename, delete) and projects (list, create, update, each project a directory
  with a JSON sidecar). Names of created notes and project directories come from
  \<open>slugify\<close>.

  \<^bold>\<open>The model.\<close> Each command is a function of the environment (\<open>sysenv\<close>: the home
  directory, the clocks), of the random UUIDs it draws (parameters), and of the disk: a
  state of type \<open>fs\<close>, an association list from absolute paths (lists of components) to
  files and directories. A command returns a value of the error-and-state monad
  \<open>('s, 'a) res\<close> of \<open>Prelude\<close>, so that every \<open>?\<close> and every \<open>Err\<close> of the Rust code is a
  branch that returns \<open>Inl\<close> of a \<open>vault_error\<close>, with the state as it was left at that
  point. The theories, in the order of their imports:
  \<^item> \<open>Prelude\<close>: string operations of \<open>std\<close> (\<open>starts_with\<close>, \<open>trim\<close>, \<open>trim_matches\<close>,
    \<open>trim_start_matches\<close>), the error type, the monad and its invariant (\<open>keeps\<close>) and
    error-set (\<open>raises\<close>) combinators.
  \<^item> \<open>Fs\<close>: \<open>std::fs\<close> and \<open>walkdir\<close> as operations on \<open>fs\<close> with their POSIX behaviour
    (\<open>create_dir_all\<close>, \<open>write_file\<close>, \<open>remove_file\<close>, \<open>remove_dir\<close>, \<open>rename\<close>,
    \<open>read_dir\<close>, \<open>read_to_string\<close>, \<open>descendants\<close>), the tree invariant \<open>wf_fs\<close> that every
    operation keeps, and frame lemmas.
  \<^item> \<open>Paths\<close> (lines 13--35, 91--101): the path resolver; claims C1--C3.
  \<^item> \<open>AtomicWriter\<close> (lines 65--89): \<open>write_atomic\<close>, also as a list of system calls whose
    intermediate states are those a concurrent reader sees; claims C4--C7.
  \<^item> \<open>Json\<close>, \<open>Bootstrap\<close> (lines 37--63, 103--118): the pretty printer of
    \<open>serde_json\<close> for flat objects, \<open>ensure_vault_structure\<close> and \<open>vault_init\<close>; C8, C9.
  \<^item> \<open>Slug\<close> (lines 486--505): \<open>slugify\<close>; C10, C11. \<open>SlugSpec\<close> states the slug rule of the
    spec as a reference definition (the words of the input joined by dashes, split by a
    \<open>function\<close> with a termination proof) and proves the code equal to it; C40.
  \<^item> \<open>Notes\<close>, \<open>NoteCreate\<close>, \<open>NoteMove\<close> (lines 120--375): the note commands; C12--C31.
  \<^item> \<open>Folders\<close> (lines 377--463): the folder commands; C32--C36.
  \<^item> \<open>JsonParse\<close>, \<open>Projects\<close> (lines 465--654): the parser of \<open>serde_json::from_str\<close> for
    the sidecar, with the round trip of printer and parser; the project commands, the
    abstract registry of projects that the scan implements, and the refinement of
    creation; C37--C39.

  \<^bold>\<open>What the lemmas show.\<close> For each component: the functional behaviour of each command
  on its success path (what is on disk afterwards, what is returned), its error paths
  (which error, and that nothing but the bootstrap was written), the frame (what it does
  not touch), the invariant \<open>wf_fs\<close>, and the places where the code deviates from the
  spec or from its own intent; these are recorded as findings in \<open>PROJECT.json\<close>, each with
  the theorem that exhibits it. Each claim has a witness that evaluates it on a concrete
  vault under \<open>/home/u\<close> (\<open>demo_env\<close>).

  \<^bold>\<open>Bounds and choices.\<close> No loop of the code needs fuel: every loop runs over a finite
  list (the entries of a directory or of a walk, the characters of a string) and is a
  structural recursion; the JSON member parser is a \<open>function\<close> whose termination is
  proved by the length of the remaining input. The \<open>as i64\<close> cast of modification times
  is a 64-bit word read as signed (\<open>mtime_i64\<close>). UUIDs, clocks and the home directory are
  parameters, so that each theorem holds for every value the environment may supply.

  \<^bold>\<open>Not modelled.\<close> The Tauri registration in \<open>lib.rs\<close> (generated wiring without
  behaviour of its own); symbolic links, permissions, hard links and failures of the
  device (the only I/O errors are those the shape of the tree causes); multi-byte
  characters are bytes, so \<open>str::to_lowercase\<close> of the project sort key is modelled on
  ASCII only; JSON values other than strings in a sidecar (serde would accept them in
  unknown fields) and \<open>\u\<close> surrogate pairs; the sequence form of a struct that
  \<open>serde_json\<close> also accepts; concurrent callers, beyond the intermediate states of
  \<open>write_atomic\<close>.
\<close>

end
